theory Spec2Isabelle
  imports Complex_Main "HOL-Library.Log_Nat"
begin

section \<open>VegSeg backend: tiling, reconstruction and the task lifecycle\<close>

text \<open>
  A shallow embedding of \<^verbatim>\<open>backend/main.py\<close>. NumPy arrays are records holding the
  shape and a cell function; only cells inside the shape are meaningful. Python exceptions
  are values of the type \<open>error\<close> and a function that can raise returns \<open>error + 'a\<close>.
\<close>

subsection \<open>Errors and arrays\<close>

datatype error =
    ValueError string
  | RuntimeError string
  | KeyError string
  | OtherError string

text \<open>\<^verbatim>\<open>str(e)\<close> of an exception that was built from one message.\<close>

fun str_of :: "error \<Rightarrow> string" where
  "str_of (ValueError m) = m"
| "str_of (RuntimeError m) = m"
| "str_of (KeyError m) = m"
| "str_of (OtherError m) = m"

text \<open>An image: an array of shape \<open>(height, width, channels)\<close>.\<close>

record 'a image =
  height :: nat
  width :: nat
  channels :: nat
  pixel :: "nat \<Rightarrow> nat \<Rightarrow> nat \<Rightarrow> 'a"

text \<open>A two-dimensional array of shape \<open>(nrows, ncols)\<close>.\<close>

record 'a arr2 =
  nrows :: nat
  ncols :: nat
  cell :: "nat \<Rightarrow> nat \<Rightarrow> 'a"

subsection \<open>The Tiler: \<^verbatim>\<open>extract_patches\<close>\<close>

text \<open>
  \<^verbatim>\<open>np.pad(a, ((0, pad_h), (0, pad_w), (0, 0)), mode='reflect')\<close>, as NumPy documents it:
  the array is extended after its last row and column by mirroring it on the edge cell,
  which is not repeated. The mirror image is itself mirrored when the pad is longer than
  the axis, so index \<open>k\<close> of an axis of length \<open>n\<close> reads the source at the position of a
  triangle wave of period \<open>2 * (n - 1)\<close>; an axis of length one repeats its only cell.
  NumPy raises \<^verbatim>\<open>ValueError\<close> when an empty axis is to be extended.
\<close>

definition reflect_index :: "nat \<Rightarrow> nat \<Rightarrow> nat" where
  "reflect_index n k =
     (if n \<le> 1 then 0
      else let m = k mod (2 * (n - 1)) in if m < n then m else 2 * (n - 1) - m)"

definition np_pad_reflect :: "'a image \<Rightarrow> nat \<Rightarrow> nat \<Rightarrow> error + 'a image" where
  "np_pad_reflect img pad_h pad_w =
     (if (height img = 0 \<and> 0 < pad_h) \<or> (width img = 0 \<and> 0 < pad_w)
      then Inl (ValueError ''cannot extend empty axis'')
      else Inr \<lparr> height = height img + pad_h,
                 width = width img + pad_w,
                 channels = channels img,
                 pixel = (\<lambda>i j k. pixel img (reflect_index (height img) i)
                                              (reflect_index (width img) j) k) \<rparr>)"

text \<open>
  \<^verbatim>\<open>range(0, stop, step)\<close> for a positive step. The callers pass
  \<^verbatim>\<open>stop = h - patch_size + 1\<close>, which is written \<open>h + 1 - patch_size\<close> on the naturals:
  the truncated difference is zero exactly when Python's stop is not positive, and the
  range is empty in both cases.
\<close>

definition py_range :: "nat \<Rightarrow> nat \<Rightarrow> nat list" where
  "py_range stop step = map (\<lambda>k. k * step) [0 ..< (stop + step - 1) div step]"

text \<open>\<^verbatim>\<open>image[y:y + patch_size, x:x + patch_size, :]\<close>: slices are clipped to the array.\<close>

definition crop :: "'a image \<Rightarrow> nat \<Rightarrow> nat \<Rightarrow> nat \<Rightarrow> 'a image" where
  "crop img y x patch_size =
     \<lparr> height = min (height img) (y + patch_size) - min (height img) y,
       width = min (width img) (x + patch_size) - min (width img) x,
       channels = channels img,
       pixel = (\<lambda>i j k. pixel img (y + i) (x + j) k) \<rparr>"

text \<open>The variable \<open>img\<close> stands for the source's \<^verbatim>\<open>image\<close>. The two lists \<^verbatim>\<open>patches\<close> and \<^verbatim>\<open>positions\<close> grow together.\<close>

type_synonym 'a tiles = "'a image list \<times> (nat \<times> nat) list"

definition append_tile :: "'a image \<Rightarrow> nat \<Rightarrow> nat \<times> nat \<Rightarrow> 'a tiles \<Rightarrow> 'a tiles" where
  "append_tile img patch_size p st =
     (fst st @ [crop img (fst p) (snd p) patch_size], snd st @ [p])"

text \<open>The guarded append of the edge passes: \<^verbatim>\<open>if (y, x) not in positions\<close>.\<close>

definition append_tile_if_new :: "'a image \<Rightarrow> nat \<Rightarrow> nat \<times> nat \<Rightarrow> 'a tiles \<Rightarrow> 'a tiles" where
  "append_tile_if_new img patch_size p st =
     (if p \<in> set (snd st) then st else append_tile img patch_size p st)"

text \<open>
  The four passes over the (padded) image of height \<open>h\<close> and width \<open>w\<close>. After the padding
  step \<open>patch_size \<le> h\<close> and \<open>patch_size \<le> w\<close>, so \<open>h - patch_size\<close> and
  \<open>w - patch_size\<close> are the integers the source computes.
\<close>

definition primary_sweep :: "'a image \<Rightarrow> nat \<Rightarrow> 'a tiles" where
  "primary_sweep img patch_size =
     fold (\<lambda>y. fold (\<lambda>x. append_tile img patch_size (y, x))
                     (py_range (width img + 1 - patch_size) patch_size))
          (py_range (height img + 1 - patch_size) patch_size) ([], [])"

definition bottom_edge :: "'a image \<Rightarrow> nat \<Rightarrow> 'a tiles \<Rightarrow> 'a tiles" where
  "bottom_edge img patch_size st =
     (if height img mod patch_size \<noteq> 0
      then fold (\<lambda>x. append_tile_if_new img patch_size (height img - patch_size, x))
                (py_range (width img + 1 - patch_size) patch_size) st
      else st)"

definition right_edge :: "'a image \<Rightarrow> nat \<Rightarrow> 'a tiles \<Rightarrow> 'a tiles" where
  "right_edge img patch_size st =
     (if width img mod patch_size \<noteq> 0
      then fold (\<lambda>y. append_tile_if_new img patch_size (y, width img - patch_size))
                (py_range (height img + 1 - patch_size) patch_size) st
      else st)"

definition corner :: "'a image \<Rightarrow> nat \<Rightarrow> 'a tiles \<Rightarrow> 'a tiles" where
  "corner img patch_size st =
     (if height img mod patch_size \<noteq> 0 \<and> width img mod patch_size \<noteq> 0
      then append_tile_if_new img patch_size
             (height img - patch_size, width img - patch_size) st
      else st)"

text \<open>The padding step of \<^verbatim>\<open>extract_patches\<close>; \<open>patch_size - h\<close> is \<^verbatim>\<open>max(0, patch_size - h)\<close>.\<close>

definition pad_to_patch :: "'a image \<Rightarrow> nat \<Rightarrow> error + 'a image" where
  "pad_to_patch img patch_size =
     (if height img < patch_size \<or> width img < patch_size
      then np_pad_reflect img (patch_size - height img) (patch_size - width img)
      else Inr img)"

text \<open>
  \<^verbatim>\<open>extract_patches\<close> returns the patches, their positions and the padded shape. A patch
  size of zero passes the padding test and then makes \<^verbatim>\<open>range\<close> raise.
\<close>

definition tile_passes :: "'a image \<Rightarrow> nat \<Rightarrow> 'a tiles" where
  "tile_passes img patch_size =
     corner img patch_size
       (right_edge img patch_size (bottom_edge img patch_size (primary_sweep img patch_size)))"

definition extract_patches ::
  "'a image \<Rightarrow> nat \<Rightarrow> error + ('a image list \<times> (nat \<times> nat) list \<times> (nat \<times> nat \<times> nat))" where
  "extract_patches img patch_size =
     (case pad_to_patch img patch_size of
        Inl e \<Rightarrow> Inl e
      | Inr padded \<Rightarrow>
          if patch_size = 0 then Inl (ValueError ''range() arg 3 must not be zero'')
          else
            let st = tile_passes padded patch_size
            in Inr (fst st, snd st, (height padded, width padded, channels padded)))"

text \<open>The region of the tile at origin \<open>(y, x)\<close> contains the pixel \<open>(i, j)\<close>.\<close>

definition covers :: "nat \<Rightarrow> nat \<times> nat \<Rightarrow> nat \<times> nat \<Rightarrow> bool" where
  "covers patch_size p q =
     (fst p \<le> fst q \<and> fst q < fst p + patch_size \<and> snd p \<le> snd q \<and> snd q < snd p + patch_size)"

subsection \<open>The Reconstructor: \<^verbatim>\<open>reconstruct_from_patches\<close>\<close>

text \<open>
  The accumulators are \<^verbatim>\<open>float32\<close> arrays. They hold sums of class indices and counts of
  tiles; these are integers, and the \<^verbatim>\<open>float32\<close> values from \<open>2^23\<close> on are integers too,
  so the cells are naturals and every in-place addition stores the exact sum rounded to
  \<^verbatim>\<open>float32\<close>: to 24 significant bits, to the nearest value, a tie to the even one. The
  predictions are \<^verbatim>\<open>int64\<close> class indices, so no sum comes near the overflow threshold of
  \<^verbatim>\<open>float32\<close>, which is left out.
\<close>

definition f32 :: "nat \<Rightarrow> nat" where
  "f32 n =
     (if n < 2 ^ 24 then n
      else let u = 2 ^ (floorlog 2 n - 24); q = n div u; r = n mod u
           in (if 2 * r < u then q else if u < 2 * r then q + 1
               else if even q then q else q + 1) * u)"

definition np_zeros :: "nat \<Rightarrow> nat \<Rightarrow> nat arr2" where
  "np_zeros h w = \<lparr> nrows = h, ncols = w, cell = (\<lambda>i j. 0) \<rparr>"

text \<open>\<^verbatim>\<open>np.full((h, w), v)\<close>: the array that holds \<open>v\<close> in every cell.\<close>

definition np_full :: "nat \<Rightarrow> nat \<Rightarrow> 'a \<Rightarrow> 'a arr2" where
  "np_full h w v = \<lparr> nrows = h, ncols = w, cell = (\<lambda>i j. v) \<rparr>"

text \<open>The cell \<open>(i, j)\<close> lies in the slice \<^verbatim>\<open>a[y:y + patch_size, x:x + patch_size]\<close>.\<close>

definition in_slice :: "'a arr2 \<Rightarrow> nat \<Rightarrow> nat \<Rightarrow> nat \<Rightarrow> nat \<Rightarrow> nat \<Rightarrow> bool" where
  "in_slice a y x patch_size i j =
     (y \<le> i \<and> i < min (nrows a) (y + patch_size) \<and> x \<le> j \<and> j < min (ncols a) (x + patch_size))"

text \<open>
  \<^verbatim>\<open>a[y:y + patch_size, x:x + patch_size] += pred\<close>. NumPy broadcasts \<^verbatim>\<open>pred\<close> to the shape
  of the slice: each axis of \<^verbatim>\<open>pred\<close> has the length of the slice's axis or length one,
  and anything else raises \<^verbatim>\<open>ValueError\<close>.
\<close>

definition add_patch :: "nat arr2 \<Rightarrow> nat \<Rightarrow> nat \<Rightarrow> nat \<Rightarrow> nat arr2 \<Rightarrow> error + nat arr2" where
  "add_patch a y x patch_size pred =
     (let sh = min (nrows a) (y + patch_size) - min (nrows a) y;
          sw = min (ncols a) (x + patch_size) - min (ncols a) x
      in if (nrows pred = sh \<or> nrows pred = 1) \<and> (ncols pred = sw \<or> ncols pred = 1)
         then Inr (a\<lparr> cell := (\<lambda>i j.
                     if in_slice a y x patch_size i j
                     then f32 (cell a i j + cell pred (if nrows pred = 1 then 0 else i - y)
                                                      (if ncols pred = 1 then 0 else j - x))
                     else cell a i j) \<rparr>)
         else Inl (ValueError ''operands could not be broadcast together''))"

text \<open>\<^verbatim>\<open>a[y:y + patch_size, x:x + patch_size] += 1\<close>.\<close>

definition add_one :: "nat arr2 \<Rightarrow> nat \<Rightarrow> nat \<Rightarrow> nat \<Rightarrow> nat arr2" where
  "add_one a y x patch_size =
     a\<lparr> cell := (\<lambda>i j. if in_slice a y x patch_size i j then f32 (cell a i j + 1)
                      else cell a i j) \<rparr>"

text \<open>The loop over \<^verbatim>\<open>zip(predictions, positions)\<close>; an exception leaves the loop.\<close>

fun accumulate ::
  "nat \<Rightarrow> (nat arr2 \<times> (nat \<times> nat)) list \<Rightarrow> nat arr2 \<times> nat arr2 \<Rightarrow> error + (nat arr2 \<times> nat arr2)" where
  "accumulate patch_size [] st = Inr st"
| "accumulate patch_size ((pred, (y, x)) # rest) (output_mask, count_mask) =
     (case add_patch output_mask y x patch_size pred of
        Inl e \<Rightarrow> Inl e
      | Inr output_mask' \<Rightarrow>
          accumulate patch_size rest (output_mask', add_one count_mask y x patch_size))"

text \<open>
  \<^verbatim>\<open>(s / np.maximum(c, 1)).astype(np.uint8)\<close> for one cell. The quotient is a correctly
  rounded \<^verbatim>\<open>float32\<close> and the cast drops its fraction. For a sum and a count below \<open>2^24\<close>
  a quotient that is not an integer lies further from the next integer than the rounding
  can move it, so the result is the integer quotient; the statements below keep the sum
  and the count below \<open>2^24\<close>. The cast is written with the wrap-around of an eight-bit
  integer.
\<close>

definition average_uint8 :: "nat \<Rightarrow> nat \<Rightarrow> nat" where
  "average_uint8 s c = (s div max c 1) mod 256"

definition reconstruct_from_patches ::
  "nat arr2 list \<Rightarrow> (nat \<times> nat) list \<Rightarrow> nat \<times> nat \<times> nat \<Rightarrow> nat \<Rightarrow> error + nat arr2" where
  "reconstruct_from_patches predictions positions original_shape patch_size =
     (case original_shape of (h, w, _) \<Rightarrow>
        (case accumulate patch_size (zip predictions positions) (np_zeros h w, np_zeros h w) of
           Inl e \<Rightarrow> Inl e
         | Inr (output_mask, count_mask) \<Rightarrow>
             Inr \<lparr> nrows = h, ncols = w,
                   cell = (\<lambda>i j. average_uint8 (cell output_mask i j) (cell count_mask i j)) \<rparr>))"

text \<open>
  What the specification speaks of: the sum of the predicted class values at a pixel, the
  number of tiles that overlap there, and the quotient rounded to the nearest integer
  (halves upwards).
\<close>

definition sum_at :: "nat \<Rightarrow> (nat arr2 \<times> (nat \<times> nat)) list \<Rightarrow> nat \<Rightarrow> nat \<Rightarrow> nat" where
  "sum_at patch_size tiles i j =
     sum_list (map (\<lambda>t. if covers patch_size (snd t) (i, j)
                         then cell (fst t) (i - fst (snd t)) (j - snd (snd t)) else 0) tiles)"

definition count_at :: "nat \<Rightarrow> (nat arr2 \<times> (nat \<times> nat)) list \<Rightarrow> nat \<Rightarrow> nat \<Rightarrow> nat" where
  "count_at patch_size tiles i j = length (filter (\<lambda>t. covers patch_size (snd t) (i, j)) tiles)"

definition round_nearest :: "nat \<Rightarrow> nat \<Rightarrow> nat" where
  "round_nearest s c = (2 * s + c) div (2 * c)"

text \<open>
  A prediction with a matching origin: the prediction has the tile's size and its origin
  keeps the tile inside the accumulators of shape \<open>(h, w)\<close>.
\<close>

definition tile_fits :: "nat \<Rightarrow> nat \<Rightarrow> nat \<Rightarrow> nat arr2 \<times> (nat \<times> nat) \<Rightarrow> bool" where
  "tile_fits patch_size h w t =
     (nrows (fst t) = patch_size \<and> ncols (fst t) = patch_size \<and>
      fst (snd t) + patch_size \<le> h \<and> snd (snd t) + patch_size \<le> w)"

text \<open>Every value of the prediction is below \<open>bound\<close>.\<close>

definition values_below :: "nat \<Rightarrow> nat arr2 \<Rightarrow> bool" where
  "values_below bound pred = (\<forall>a < nrows pred. \<forall>b < ncols pred. cell pred a b < bound)"

subsection \<open>The orchestrator: \<^verbatim>\<open>segment_image_with_patches\<close>\<close>

text \<open>\<^verbatim>\<open>full_mask[:h, :w]\<close>.\<close>

definition crop_mask :: "'a arr2 \<Rightarrow> nat \<Rightarrow> nat \<Rightarrow> 'a arr2" where
  "crop_mask m h w = \<lparr> nrows = min (nrows m) h, ncols = min (ncols m) w, cell = cell m \<rparr>"

text \<open>
  The preprocessing function of the backbone and the model are outside the repository:
  \<open>preprocess_input\<close> is the former, and \<open>predict\<close> is \<^verbatim>\<open>model.predict\<close> followed by
  \<^verbatim>\<open>np.argmax(predictions, axis=-1)\<close>, one array of class indices for each patch.
\<close>

definition segment_image_with_patches ::
  "('a image \<Rightarrow> error + 'b image) \<Rightarrow> ('b image list \<Rightarrow> error + nat arr2 list)
     \<Rightarrow> 'a image \<Rightarrow> nat \<Rightarrow> error + nat arr2" where
  "segment_image_with_patches preprocess_input predict image_array patch_size =
     (case preprocess_input image_array of
        Inl e \<Rightarrow> Inl e
      | Inr preprocessed_image \<Rightarrow>
          (case extract_patches preprocessed_image patch_size of
             Inl e \<Rightarrow> Inl e
           | Inr (patches, positions, padded_shape) \<Rightarrow>
               (case predict patches of
                  Inl e \<Rightarrow> Inl e
                | Inr predicted_masks \<Rightarrow>
                    (case reconstruct_from_patches predicted_masks positions padded_shape patch_size of
                       Inl e \<Rightarrow> Inl e
                     | Inr full_mask \<Rightarrow>
                         Inr (crop_mask full_mask (height image_array) (width image_array))))))"

subsection \<open>Model configuration\<close>

definition PATCH_SIZE :: nat where
  "PATCH_SIZE = 512"

definition N_CLASSES :: nat where
  "N_CLASSES = 7"

definition VEGETATION_CLASSES :: "nat list" where
  "VEGETATION_CLASSES = [1, 2, 3, 4, 5, 6]"

subsection \<open>Vegetation mask and coverage\<close>

text \<open>\<^verbatim>\<open>np.isin(m, classes)\<close> and \<^verbatim>\<open>.astype(np.float32)\<close> of a boolean array.\<close>

definition np_isin :: "nat arr2 \<Rightarrow> nat list \<Rightarrow> bool arr2" where
  "np_isin m classes =
     \<lparr> nrows = nrows m, ncols = ncols m, cell = (\<lambda>i j. cell m i j \<in> set classes) \<rparr>"

definition astype_float :: "bool arr2 \<Rightarrow> rat arr2" where
  "astype_float m =
     \<lparr> nrows = nrows m, ncols = ncols m, cell = (\<lambda>i j. if cell m i j then 1 else 0) \<rparr>"

definition binary_vegetation_mask :: "nat arr2 \<Rightarrow> rat arr2" where
  "binary_vegetation_mask segmentation_mask =
     astype_float (np_isin segmentation_mask VEGETATION_CLASSES)"

text \<open>The cells of an array in row-major order, and \<^verbatim>\<open>m.size\<close>.\<close>

definition cells :: "'a arr2 \<Rightarrow> 'a list" where
  "cells m = concat (map (\<lambda>i. map (cell m i) [0 ..< ncols m]) [0 ..< nrows m])"

definition np_size :: "'a arr2 \<Rightarrow> nat" where
  "np_size m = nrows m * ncols m"


text \<open>
  \<^verbatim>\<open>binary_mask.sum()\<close> adds the zeros and ones in \<^verbatim>\<open>float32\<close> and rounds after each
  addition. NumPy adds them in pairwise order; here they are added in row-major order.
  On a mask of at most \<open>2^24\<close> pixels every partial sum is an integer that \<^verbatim>\<open>float32\<close>
  holds exactly, whatever the order, and the statement below is about such masks.
\<close>

definition np_sum :: "(rat \<Rightarrow> rat) \<Rightarrow> rat arr2 \<Rightarrow> rat" where
  "np_sum fl m = foldl (\<lambda>acc v. fl (acc + v)) 0 (cells m)"

text \<open>
  \<^verbatim>\<open>(binary_mask.sum() / binary_mask.size) * 100\<close>. On an empty mask NumPy divides zero by
  zero, warns and yields \<^verbatim>\<open>nan\<close>, which is \<open>None\<close> here.
\<close>

definition vegetation_percentage :: "(rat \<Rightarrow> rat) \<Rightarrow> rat arr2 \<Rightarrow> rat option" where
  "vegetation_percentage fl binary_mask =
     (if np_size binary_mask = 0 then None
      else Some (fl (fl (np_sum fl binary_mask / of_nat (np_size binary_mask)) * 100)))"

text \<open>Rounding to the nearest integer, halves to the even neighbour.\<close>

definition rint :: "rat \<Rightarrow> int" where
  "rint x =
     (let f = \<lfloor>x\<rfloor>; d = x - of_int f
      in if d < 1 / 2 then f else if 1 / 2 < d then f + 1 else if even f then f else f + 1)"

text \<open>\<^verbatim>\<open>round(x, 2)\<close> of a NumPy scalar: scale by 100, round to an integer, scale back.\<close>

definition round2 :: "(rat \<Rightarrow> rat) \<Rightarrow> rat \<Rightarrow> rat" where
  "round2 fl x = fl (of_int (rint (fl (x * 100))) / 100)"

text \<open>The value stored under \<^verbatim>\<open>"vegetation_percentage"\<close> in the result payload.\<close>

definition reported_percentage :: "(rat \<Rightarrow> rat) \<Rightarrow> nat arr2 \<Rightarrow> rat option" where
  "reported_percentage fl segmentation_mask =
     map_option (round2 fl) (vegetation_percentage fl (binary_vegetation_mask segmentation_mask))"

subsection \<open>Loading the image\<close>

text \<open>\<^verbatim>\<open>str.lower\<close> on ASCII text and \<^verbatim>\<open>str.endswith\<close>.\<close>

definition lower_char :: "char \<Rightarrow> char" where
  "lower_char c =
     (let n = (of_char c :: nat) in if 65 \<le> n \<and> n \<le> 90 then char_of (n + 32) else c)"

definition str_lower :: "string \<Rightarrow> string" where
  "str_lower s = map lower_char s"

definition endswith :: "string \<Rightarrow> string \<Rightarrow> bool" where
  "endswith s suffix =
     (length suffix \<le> length s \<and> drop (length s - length suffix) s = suffix)"

text \<open>\<^verbatim>\<open>str(file_path).lower().endswith(('.tif', '.tiff'))\<close>.\<close>

definition is_geotiff :: "string \<Rightarrow> bool" where
  "is_geotiff file_path =
     (endswith (str_lower file_path) ''.tif'' \<or> endswith (str_lower file_path) ''.tiff'')"

text \<open>
  \<^verbatim>\<open>np.transpose(a, (1, 2, 0))\<close> and \<^verbatim>\<open>a[:, :, :3]\<close>. The array read by rasterio has the
  bands on its first axis, which is the field \<open>height\<close> of the record.
\<close>

definition transpose_120 :: "'a image \<Rightarrow> 'a image" where
  "transpose_120 a =
     \<lparr> height = width a, width = channels a, channels = height a,
       pixel = (\<lambda>i j k. pixel a k i j) \<rparr>"

definition first_three :: "'a image \<Rightarrow> 'a image" where
  "first_three a = a\<lparr> channels := min (channels a) 3 \<rparr>"

text \<open>
  The collaborators of a background job, which are outside the repository: the loaded
  model (\<open>None\<close> when it is not loaded), the preprocessing of the backbone, the two image
  readers, the writer of the three result images, the HTTP client, the file system, the
  clock and the floating-point rounding. Each of them may raise.
\<close>

record env =
  model :: "(rat image list \<Rightarrow> error + nat arr2 list) option"
  preprocess_input :: "nat image \<Rightarrow> error + rat image"
  rasterio_read :: "string \<Rightarrow> error + nat image"
  pil_open_rgb :: "string \<Rightarrow> error + nat image"
  write_artifacts :: "string \<Rightarrow> nat image \<Rightarrow> nat arr2 \<Rightarrow> rat arr2 \<Rightarrow> error option"
  requests_get :: "string \<Rightarrow> error + string"
  write_file :: "string \<Rightarrow> string \<Rightarrow> error option"
  elapsed :: rat
  float_round :: "rat \<Rightarrow> rat"

datatype loader = Rasterio | PIL

definition loader_of :: "string \<Rightarrow> loader" where
  "loader_of file_path = (if is_geotiff file_path then Rasterio else PIL)"

definition load_image :: "env \<Rightarrow> string \<Rightarrow> error + nat image" where
  "load_image e file_path =
     (case loader_of file_path of
        Rasterio \<Rightarrow>
          (case rasterio_read e file_path of
             Inl x \<Rightarrow> Inl x
           | Inr raw \<Rightarrow>
               let a = (if height raw \<le> 4 then transpose_120 raw else raw)
               in Inr (if 3 < channels a then first_three a else a))
      | PIL \<Rightarrow> pil_open_rgb e file_path)"

subsection \<open>Task records\<close>

record result_payload =
  vegetation_percentage_of :: "rat option"
  processing_time :: rat
  method_of :: string
  result_mask_url :: string
  overlay_url :: string
  segmentation_url :: string
  image_dimensions :: "nat \<times> nat"
  unique_classes :: "nat list"

record task =
  task_id :: string
  status :: string
  progress :: nat
  message :: string
  created_at :: nat
  result :: "result_payload option"

text \<open>The records the two submission endpoints store before they schedule the job.\<close>

definition new_upload_task :: "string \<Rightarrow> nat \<Rightarrow> task" where
  "new_upload_task tid now =
     \<lparr> task_id = tid, status = ''uploading'', progress = 0,
       message = ''Uploading file...'', created_at = now, result = None \<rparr>"

definition new_url_task :: "string \<Rightarrow> nat \<Rightarrow> task" where
  "new_url_task tid now =
     \<lparr> task_id = tid, status = ''queued'', progress = 0,
       message = ''Task queued for processing...'', created_at = now, result = None \<rparr>"

definition terminal :: "task \<Rightarrow> bool" where
  "terminal t = (status t = ''error'' \<or> status t = ''completed'')"

subsection \<open>The background jobs\<close>

text \<open>
  A job runs without a suspension point, so each block of consecutive assignments to the
  record is one transition. The body of a \<^verbatim>\<open>try\<close> is a function that returns the exception
  it raised, if any, and the records after each of its transitions; the \<^verbatim>\<open>except\<close> clause
  then adds one transition. The logging calls do not touch the record and are left out.
  \<open>error\<close> stands for the instances of \<^verbatim>\<open>Exception\<close>, which is what the clauses catch.
\<close>

definition make_result :: "env \<Rightarrow> string \<Rightarrow> nat image \<Rightarrow> nat arr2 \<Rightarrow> result_payload" where
  "make_result e tid image_array segmentation_mask =
     \<lparr> vegetation_percentage_of = reported_percentage (float_round e) segmentation_mask,
       processing_time = elapsed e,
       method_of = ''AI Model (7 classes)'',
       result_mask_url = ''/results/'' @ tid @ ''_result.png'',
       overlay_url = ''/results/'' @ tid @ ''_overlay.png'',
       segmentation_url = ''/results/'' @ tid @ ''_segmentation.png'',
       image_dimensions = (height image_array, width image_array),
       unique_classes = sort (remdups (cells segmentation_mask)) \<rparr>"

definition process_image_file_body ::
  "env \<Rightarrow> string \<Rightarrow> string \<Rightarrow> task \<Rightarrow> error option \<times> task list" where
  "process_image_file_body e file_path tid t0 =
     (case model e of
        None \<Rightarrow> (Some (RuntimeError ''Model not loaded''), [])
      | Some predict \<Rightarrow>
          let t1 = t0\<lparr> status := ''processing'', progress := 30, message := ''Loading image...'' \<rparr>
          in (case load_image e file_path of
                Inl x \<Rightarrow> (Some x, [t1])
              | Inr image_array \<Rightarrow>
                  let t2 = t1\<lparr> progress := 50, message := ''Running segmentation...'' \<rparr>
                  in (case segment_image_with_patches (preprocess_input e) predict
                             image_array PATCH_SIZE of
                        Inl x \<Rightarrow> (Some x, [t1, t2])
                      | Inr segmentation_mask \<Rightarrow>
                          let binary_mask = binary_vegetation_mask segmentation_mask;
                              t3 = t2\<lparr> progress := 80, message := ''Generating results...'' \<rparr>
                          in (case write_artifacts e tid image_array segmentation_mask binary_mask of
                                Some x \<Rightarrow> (Some x, [t1, t2, t3])
                              | None \<Rightarrow>
                                  (None,
                                   [t1, t2, t3,
                                    t3\<lparr> status := ''completed'', progress := 100,
                                        message := ''Segmentation completed'',
                                        result := Some (make_result e tid image_array
                                                          segmentation_mask) \<rparr>])))))"

text \<open>The \<^verbatim>\<open>except Exception as e\<close> clause: it sets the status and the message only.\<close>

definition on_exception :: "string \<Rightarrow> error \<Rightarrow> task \<Rightarrow> task" where
  "on_exception prefix x t = t\<lparr> status := ''error'', message := prefix @ str_of x \<rparr>"

definition handled :: "string \<Rightarrow> task \<Rightarrow> error option \<times> task list \<Rightarrow> task list" where
  "handled prefix t0 r =
     (case fst r of
        None \<Rightarrow> snd r
      | Some x \<Rightarrow> snd r @ [on_exception prefix x (last (t0 # snd r))])"

text \<open>The records of the task after each transition of \<^verbatim>\<open>process_image_file\<close>.\<close>

definition process_image_file_trace :: "env \<Rightarrow> string \<Rightarrow> string \<Rightarrow> task \<Rightarrow> task list" where
  "process_image_file_trace e file_path tid t0 =
     handled ''Processing error: '' t0 (process_image_file_body e file_path tid t0)"

text \<open>\<^verbatim>\<open>UPLOAD_DIR / f"{task_id}_input"\<close>, as \<^verbatim>\<open>str\<close> shows it.\<close>

definition url_input_path :: "string \<Rightarrow> string" where
  "url_input_path tid = ''uploads/'' @ tid @ ''_input''"

text \<open>
  \<^verbatim>\<open>process_image_from_url\<close> ends by awaiting \<^verbatim>\<open>process_image_file\<close>, which handles its
  own exceptions.
\<close>

definition process_image_from_url_body ::
  "env \<Rightarrow> string \<Rightarrow> string \<Rightarrow> task \<Rightarrow> error option \<times> task list" where
  "process_image_from_url_body e url tid t0 =
     (case model e of
        None \<Rightarrow> (Some (RuntimeError ''Model not loaded''), [])
      | Some predict \<Rightarrow>
          let t1 = t0\<lparr> status := ''downloading'', progress := 10,
                       message := ''Downloading image...'' \<rparr>
          in (case requests_get e url of
                Inl x \<Rightarrow> (Some x, [t1])
              | Inr content \<Rightarrow>
                  (case write_file e (url_input_path tid) content of
                     Some x \<Rightarrow> (Some x, [t1])
                   | None \<Rightarrow>
                       (None, t1 # process_image_file_trace e (url_input_path tid) tid t1))))"

definition process_image_from_url_trace :: "env \<Rightarrow> string \<Rightarrow> string \<Rightarrow> task \<Rightarrow> task list" where
  "process_image_from_url_trace e url tid t0 =
     handled ''Error processing URL: '' t0 (process_image_from_url_body e url tid t0)"

text \<open>
  The jobs on the task store \<^verbatim>\<open>tasks\<close>. Without a record for the task every assignment
  raises \<^verbatim>\<open>KeyError\<close>, the one in the \<^verbatim>\<open>except\<close> clause too, and the job lets it out.
\<close>

datatype outcome = Returned | Raised error

definition process_image_file ::
  "env \<Rightarrow> string \<Rightarrow> string \<Rightarrow> (string \<rightharpoonup> task) \<Rightarrow> outcome \<times> (string \<rightharpoonup> task)" where
  "process_image_file e file_path tid tasks =
     (case tasks tid of
        None \<Rightarrow> (Raised (KeyError tid), tasks)
      | Some t0 \<Rightarrow>
          (Returned, tasks(tid \<mapsto> last (t0 # process_image_file_trace e file_path tid t0))))"

definition process_image_from_url ::
  "env \<Rightarrow> string \<Rightarrow> string \<Rightarrow> (string \<rightharpoonup> task) \<Rightarrow> outcome \<times> (string \<rightharpoonup> task)" where
  "process_image_from_url e url tid tasks =
     (case tasks tid of
        None \<Rightarrow> (Raised (KeyError tid), tasks)
      | Some t0 \<Rightarrow>
          (Returned, tasks(tid \<mapsto> last (t0 # process_image_from_url_trace e url tid t0))))"

subsection \<open>Predicates used in the statements\<close>

text \<open>
  The patch is the tile at the origin \<open>p\<close>: the tile lies inside the image, the patch
  has the tile's size and it holds the pixels of the image from the origin on.
\<close>

definition is_tile :: "'a image \<Rightarrow> nat \<Rightarrow> 'a image \<Rightarrow> nat \<times> nat \<Rightarrow> bool" where
  "is_tile img patch_size patch p =
     (fst p + patch_size \<le> height img \<and> snd p + patch_size \<le> width img \<and>
      height patch = patch_size \<and> width patch = patch_size \<and> channels patch = channels img \<and>
      (\<forall>a < patch_size. \<forall>b < patch_size. \<forall>k < channels img.
         pixel patch a b k = pixel img (fst p + a) (snd p + b) k))"

text \<open>The patches are the crops of the image at the positions, in the same order.\<close>

definition tiles_aligned :: "'a image \<Rightarrow> nat \<Rightarrow> 'a tiles \<Rightarrow> bool" where
  "tiles_aligned img patch_size st =
     (fst st = map (\<lambda>p. crop img (fst p) (snd p) patch_size) (snd st))"

text \<open>
  Over the successive records of one task: the progress never decreases, no record
  before the last is terminal, and a transition to \<^verbatim>\<open>error\<close> keeps the progress.
\<close>

fun progress_monotone :: "task list \<Rightarrow> bool" where
  "progress_monotone (t # u # rest) = (progress t \<le> progress u \<and> progress_monotone (u # rest))"
| "progress_monotone _ = True"

fun only_last_terminal :: "task list \<Rightarrow> bool" where
  "only_last_terminal (t # u # rest) = (\<not> terminal t \<and> only_last_terminal (u # rest))"
| "only_last_terminal _ = True"

fun error_keeps_progress :: "task list \<Rightarrow> bool" where
  "error_keeps_progress (t # u # rest) =
     ((status u = ''error'' \<longrightarrow> progress u = progress t) \<and> error_keeps_progress (u # rest))"
| "error_keeps_progress _ = True"

subsection \<open>Example collaborators\<close>

text \<open>
  A loaded model whose download succeeds and whose image reader rejects the file, and one
  whose download fails with HTTP status 404.
\<close>

definition env_unreadable :: env where
  "env_unreadable =
     \<lparr> model = Some (\<lambda>patches. Inl (OtherError ''no prediction'')),
       preprocess_input = (\<lambda>img. Inl (OtherError ''no preprocessing'')),
       rasterio_read = (\<lambda>path. Inl (OtherError ''not a raster'')),
       pil_open_rgb = (\<lambda>path. Inl (OtherError ''cannot identify image file'')),
       write_artifacts = (\<lambda>tid image_array segmentation_mask binary_mask. None),
       requests_get = (\<lambda>url. Inr ''bytes''),
       write_file = (\<lambda>path content. None),
       elapsed = 0,
       float_round = (\<lambda>x. x) \<rparr>"

definition env_not_found :: env where
  "env_not_found = env_unreadable\<lparr> requests_get := (\<lambda>url. Inl (OtherError ''404 Client Error'')) \<rparr>"

section \<open>Properties\<close>

subsection \<open>The Tiler\<close>

lemma positions_append_tile: "snd (append_tile img ps p st) = snd st @ [p]"
  by (simp add: append_tile_def)

lemma positions_fold_row:
  "snd (fold (\<lambda>x. append_tile img ps (y, x)) xs st) = snd st @ map (Pair y) xs"
  by (induction xs arbitrary: st) (simp_all add: positions_append_tile)

lemma positions_fold_rows:
  "snd (fold (\<lambda>y. fold (\<lambda>x. append_tile img ps (y, x)) xs) ys st)
     = snd st @ concat (map (\<lambda>y. map (Pair y) xs) ys)"
  by (induction ys arbitrary: st) (simp_all add: positions_fold_row)

lemma positions_primary_sweep:
  "snd (primary_sweep img ps)
     = List.product (py_range (height img + 1 - ps) ps) (py_range (width img + 1 - ps) ps)"
  by (simp add: primary_sweep_def positions_fold_rows product_concat_map)

lemma set_append_tile_if_new:
  "set (snd (append_tile_if_new img ps p st)) = insert p (set (snd st))"
  by (auto simp: append_tile_if_new_def positions_append_tile)

lemma set_fold_if_new:
  "set (snd (fold (\<lambda>k. append_tile_if_new img ps (f k)) ks st)) = set (snd st) \<union> f ` set ks"
  by (induction ks arbitrary: st) (auto simp: set_append_tile_if_new)

lemma set_bottom_edge:
  "set (snd (bottom_edge img ps st)) =
     set (snd st) \<union> (if height img mod ps \<noteq> 0
                       then Pair (height img - ps) ` set (py_range (width img + 1 - ps) ps)
                       else {})"
  by (simp add: bottom_edge_def set_fold_if_new)

lemma set_right_edge:
  "set (snd (right_edge img ps st)) =
     set (snd st) \<union> (if width img mod ps \<noteq> 0
                       then (\<lambda>y. (y, width img - ps)) ` set (py_range (height img + 1 - ps) ps)
                       else {})"
  by (simp add: right_edge_def set_fold_if_new)

lemma set_corner:
  "set (snd (corner img ps st)) =
     set (snd st) \<union> (if height img mod ps \<noteq> 0 \<and> width img mod ps \<noteq> 0
                       then {(height img - ps, width img - ps)} else {})"
  by (simp add: corner_def set_append_tile_if_new)

lemma set_positions_tile_passes:
  "set (snd (tile_passes img ps)) =
     set (py_range (height img + 1 - ps) ps) \<times> set (py_range (width img + 1 - ps) ps)
     \<union> (if height img mod ps \<noteq> 0
        then Pair (height img - ps) ` set (py_range (width img + 1 - ps) ps) else {})
     \<union> (if width img mod ps \<noteq> 0
        then (\<lambda>y. (y, width img - ps)) ` set (py_range (height img + 1 - ps) ps) else {})
     \<union> (if height img mod ps \<noteq> 0 \<and> width img mod ps \<noteq> 0
        then {(height img - ps, width img - ps)} else {})"
  unfolding tile_passes_def set_corner set_right_edge set_bottom_edge positions_primary_sweep
  by simp

text \<open>The patches stay the crops at the positions through every pass.\<close>

lemma aligned_append: "tiles_aligned img ps st \<Longrightarrow> tiles_aligned img ps (append_tile img ps p st)"
  by (simp add: tiles_aligned_def append_tile_def)

lemma aligned_append_if_new:
  "tiles_aligned img ps st \<Longrightarrow> tiles_aligned img ps (append_tile_if_new img ps p st)"
  by (simp add: append_tile_if_new_def aligned_append)

lemma aligned_fold:
  "tiles_aligned img ps st \<Longrightarrow> tiles_aligned img ps (fold (\<lambda>k. append_tile img ps (f k)) ks st)"
  by (induction ks arbitrary: st) (simp_all add: aligned_append)

lemma aligned_fold_if_new:
  "tiles_aligned img ps st \<Longrightarrow>
   tiles_aligned img ps (fold (\<lambda>k. append_tile_if_new img ps (f k)) ks st)"
  by (induction ks arbitrary: st) (simp_all add: aligned_append_if_new)

lemma aligned_fold_rows:
  "tiles_aligned img ps st \<Longrightarrow>
   tiles_aligned img ps (fold (\<lambda>y. fold (\<lambda>x. append_tile img ps (y, x)) xs) ys st)"
  by (induction ys arbitrary: st) (simp_all add: aligned_fold)

lemma aligned_primary: "tiles_aligned img ps (primary_sweep img ps)"
  unfolding primary_sweep_def by (rule aligned_fold_rows) (simp add: tiles_aligned_def)

lemma aligned_tile_passes: "tiles_aligned img ps (tile_passes img ps)"
  by (simp add: tile_passes_def corner_def right_edge_def bottom_edge_def
        aligned_append_if_new aligned_fold_if_new aligned_primary)

lemma patches_tile_passes:
  "fst (tile_passes img ps) = map (\<lambda>p. crop img (fst p) (snd p) ps) (snd (tile_passes img ps))"
  using aligned_tile_passes [of img ps] by (simp add: tiles_aligned_def)

text \<open>The grid of the primary sweep along one axis.\<close>

lemma length_py_range: "length (py_range stop step) = (stop + step - 1) div step"
  by (simp add: py_range_def)

lemma distinct_py_range: "0 < step \<Longrightarrow> distinct (py_range stop step)"
  by (simp add: py_range_def distinct_map inj_on_def)

lemma py_range_grid:
  assumes "0 < ps" "ps \<le> n"
  shows "py_range (n + 1 - ps) ps = map (\<lambda>k. k * ps) [0 ..< n div ps]"
  using assms by (simp add: py_range_def)

text \<open>
  A row index lies in a tile of the primary sweep or, when the height is not a multiple of
  the tile size, in the tile that is flush with the bottom edge.
\<close>

lemma axis_cover:
  assumes "0 < ps" "ps \<le> n" "i < n"
  shows "(\<exists>y \<in> set (py_range (n + 1 - ps) ps). y \<le> i \<and> i < y + ps)
         \<or> (n mod ps \<noteq> 0 \<and> n - ps \<le> i \<and> i < n - ps + ps)"
proof (cases "i < (n div ps) * ps")
  case True
  then have "i div ps < n div ps"
    using assms(1) by (simp add: div_less_iff_less_mult)
  then have "(i div ps) * ps \<in> set (py_range (n + 1 - ps) ps)"
    unfolding py_range_grid [OF assms(1,2)] by auto
  moreover have "(i div ps) * ps \<le> i" by simp
  moreover have "i < (i div ps) * ps + ps"
    using assms(1) by (metis add.commute dividend_less_div_times)
  ultimately show ?thesis by blast
next
  case False
  then have a: "(n div ps) * ps \<le> i" by simp
  have b: "n = (n div ps) * ps + n mod ps" by simp
  have "n mod ps \<noteq> 0" using a b assms(3) by (metis add.right_neutral not_le)
  moreover have "n mod ps < ps" using assms(1) by simp
  then have "n - ps \<le> i" using a b by linarith
  ultimately show ?thesis using assms by simp
qed

lemma tile_passes_cover:
  assumes ps: "0 < ps" and h: "ps \<le> height img" and w: "ps \<le> width img"
    and i: "i < height img" and j: "j < width img"
  shows "\<exists>p \<in> set (snd (tile_passes img ps)). covers ps p (i, j)"
proof -
  let ?ys = "set (py_range (height img + 1 - ps) ps)"
  let ?xs = "set (py_range (width img + 1 - ps) ps)"
  let ?P = "set (snd (tile_passes img ps))"
  have row: "(\<exists>y \<in> ?ys. y \<le> i \<and> i < y + ps)
             \<or> (height img mod ps \<noteq> 0 \<and> height img - ps \<le> i \<and> i < height img - ps + ps)"
    by (rule axis_cover [OF ps h i])
  have col: "(\<exists>x \<in> ?xs. x \<le> j \<and> j < x + ps)
             \<or> (width img mod ps \<noteq> 0 \<and> width img - ps \<le> j \<and> j < width img - ps + ps)"
    by (rule axis_cover [OF ps w j])
  from row show ?thesis
  proof
    assume "\<exists>y \<in> ?ys. y \<le> i \<and> i < y + ps"
    then obtain y where y: "y \<in> ?ys" "y \<le> i" "i < y + ps" by blast
    from col show ?thesis
    proof
      assume "\<exists>x \<in> ?xs. x \<le> j \<and> j < x + ps"
      then obtain x where x: "x \<in> ?xs" "x \<le> j" "j < x + ps" by blast
      have "(y, x) \<in> ?P" using y(1) x(1) by (simp add: set_positions_tile_passes)
      moreover have "covers ps (y, x) (i, j)" using y x by (simp add: covers_def)
      ultimately show ?thesis by blast
    next
      assume x: "width img mod ps \<noteq> 0 \<and> width img - ps \<le> j \<and> j < width img - ps + ps"
      have "(y, width img - ps) \<in> ?P" using y(1) x by (simp add: set_positions_tile_passes)
      moreover have "covers ps (y, width img - ps) (i, j)" using y x by (simp add: covers_def)
      ultimately show ?thesis by blast
    qed
  next
    assume y: "height img mod ps \<noteq> 0 \<and> height img - ps \<le> i \<and> i < height img - ps + ps"
    from col show ?thesis
    proof
      assume "\<exists>x \<in> ?xs. x \<le> j \<and> j < x + ps"
      then obtain x where x: "x \<in> ?xs" "x \<le> j" "j < x + ps" by blast
      have "(height img - ps, x) \<in> ?P" using y x(1) by (simp add: set_positions_tile_passes)
      moreover have "covers ps (height img - ps, x) (i, j)" using y x by (simp add: covers_def)
      ultimately show ?thesis by blast
    next
      assume x: "width img mod ps \<noteq> 0 \<and> width img - ps \<le> j \<and> j < width img - ps + ps"
      have "(height img - ps, width img - ps) \<in> ?P"
        using y x by (simp add: set_positions_tile_passes)
      moreover have "covers ps (height img - ps, width img - ps) (i, j)"
        using y x by (simp add: covers_def)
      ultimately show ?thesis by blast
    qed
  qed
qed

text \<open>The padding step and what \<^verbatim>\<open>extract_patches\<close> returns after it.\<close>

lemma reflect_index_less: "0 < n \<Longrightarrow> reflect_index n k < n"
  by (auto simp: reflect_index_def Let_def)

lemma reflect_index_inside: "k < n \<Longrightarrow> reflect_index n k = k"
  by (auto simp: reflect_index_def Let_def)

lemma pad_to_patch_shape:
  assumes "0 < height img" "0 < width img"
  shows "\<exists>padded. pad_to_patch img ps = Inr padded
           \<and> height padded = max (height img) ps \<and> width padded = max (width img) ps
           \<and> channels padded = channels img"
  using assms by (auto simp: pad_to_patch_def np_pad_reflect_def max_def)

lemma extract_patches_tile_passes:
  assumes "pad_to_patch img ps = Inr padded" "0 < ps"
  shows "extract_patches img ps =
           Inr (fst (tile_passes padded ps), snd (tile_passes padded ps),
                (height padded, width padded, channels padded))"
  using assms by (simp add: extract_patches_def Let_def)

text \<open>Tiles of the primary sweep do not share a pixel.\<close>

lemma grid_slot:
  fixes ps k i :: nat
  assumes "0 < ps" "k * ps \<le> i" "i < k * ps + ps"
  shows "k = i div ps"
proof -
  have "i div ps = (k * ps + (i - k * ps)) div ps" using assms(2) by simp
  also have "\<dots> = k + (i - k * ps) div ps" using assms(1) by simp
  also have "(i - k * ps) div ps = 0" using assms by simp
  finally show ?thesis by simp
qed

lemma grid_disjoint:
  assumes ps: "0 < ps"
    and p: "p \<in> set (py_range n ps) \<times> set (py_range m ps)"
    and q: "q \<in> set (py_range n ps) \<times> set (py_range m ps)"
    and r: "covers ps p r" "covers ps q r"
  shows "p = q"
proof -
  obtain a b where pab: "p = (a * ps, b * ps)" using p by (auto simp: py_range_def)
  obtain a' b' where qab: "q = (a' * ps, b' * ps)" using q by (auto simp: py_range_def)
  have "a = fst r div ps" using r(1) pab ps by (intro grid_slot) (simp_all add: covers_def)
  moreover have "a' = fst r div ps" using r(2) qab ps by (intro grid_slot) (simp_all add: covers_def)
  moreover have "b = snd r div ps" using r(1) pab ps by (intro grid_slot) (simp_all add: covers_def)
  moreover have "b' = snd r div ps" using r(2) qab ps by (intro grid_slot) (simp_all add: covers_def)
  ultimately show ?thesis using pab qab by simp
qed

lemma tile_passes_exact:
  assumes "height img mod ps = 0" "width img mod ps = 0"
  shows "tile_passes img ps = primary_sweep img ps"
  using assms by (simp add: tile_passes_def corner_def right_edge_def bottom_edge_def)

text \<open>Every tile lies inside the image, and its patch is the slice at its origin.\<close>

lemma py_range_in_bounds:
  assumes "0 < ps" "ps \<le> n" "y \<in> set (py_range (n + 1 - ps) ps)"
  shows "y + ps \<le> n"
proof -
  have "y \<in> set (map (\<lambda>k. k * ps) [0 ..< n div ps])"
    using assms(3) unfolding py_range_grid [OF assms(1,2)] .
  then have "\<exists>k < n div ps. y = k * ps" by auto
  then obtain k where k: "y = k * ps" "k < n div ps" by blast
  have "y + ps = Suc k * ps" using k(1) by simp
  also have "\<dots> \<le> (n div ps) * ps" using k(2) by (intro mult_le_mono1) simp
  also have "\<dots> \<le> n" by simp
  finally show ?thesis .
qed

lemma tile_passes_in_bounds:
  assumes ps: "0 < ps" and h: "ps \<le> height img" and w: "ps \<le> width img"
    and p: "p \<in> set (snd (tile_passes img ps))"
  shows "fst p + ps \<le> height img \<and> snd p + ps \<le> width img"
  using p py_range_in_bounds [OF ps h] py_range_in_bounds [OF ps w] h w
  unfolding set_positions_tile_passes by (auto split: if_splits)

lemma crop_is_tile:
  assumes "fst p + ps \<le> height img" "snd p + ps \<le> width img"
  shows "is_tile img ps (crop img (fst p) (snd p) ps) p"
  using assms by (simp add: is_tile_def crop_def)

lemma tile_passes_tiles:
  assumes ps: "0 < ps" and h: "ps \<le> height img" and w: "ps \<le> width img"
  shows "length (fst (tile_passes img ps)) = length (snd (tile_passes img ps))"
    and "\<forall>n < length (snd (tile_passes img ps)).
           is_tile img ps (fst (tile_passes img ps) ! n) (snd (tile_passes img ps) ! n)"
proof -
  let ?st = "tile_passes img ps"
  show len: "length (fst ?st) = length (snd ?st)"
    by (metis patches_tile_passes length_map)
  show "\<forall>n < length (snd ?st). is_tile img ps (fst ?st ! n) (snd ?st ! n)"
  proof (intro allI impI)
    fix n
    assume n: "n < length (snd ?st)"
    then have "snd ?st ! n \<in> set (snd ?st)" by simp
    then have b: "fst (snd ?st ! n) + ps \<le> height img \<and> snd (snd ?st ! n) + ps \<le> width img"
      by (rule tile_passes_in_bounds [OF ps h w])
    have "fst ?st ! n = crop img (fst (snd ?st ! n)) (snd (snd ?st ! n)) ps"
      using n by (subst patches_tile_passes) simp
    then show "is_tile img ps (fst ?st ! n) (snd ?st ! n)"
      using b by (simp add: crop_is_tile)
  qed
qed

text \<open>
  C3. For an image whose height and width are at least the tile size and exact multiples
  of it, the Tiler emits exactly \<open>(h / tile_size) * (w / tile_size)\<close> tiles, each the
  slice of the image of the tile's size at its origin; the origins are pairwise distinct
  and no two tiles have a pixel in common.
\<close>

theorem tiler_exact_grid:
  assumes ps: "0 < patch_size"
    and h: "patch_size \<le> height img" "height img mod patch_size = 0"
    and w: "patch_size \<le> width img" "width img mod patch_size = 0"
  shows "\<exists>patches positions.
           extract_patches img patch_size
             = Inr (patches, positions, (height img, width img, channels img))
           \<and> length patches = (height img div patch_size) * (width img div patch_size)
           \<and> length positions = (height img div patch_size) * (width img div patch_size)
           \<and> (\<forall>n < length positions. is_tile img patch_size (patches ! n) (positions ! n))
           \<and> distinct positions
           \<and> (\<forall>m < length positions. \<forall>n < length positions.
                 m \<noteq> n \<longrightarrow> (\<forall>r. \<not> (covers patch_size (positions ! m) r
                                       \<and> covers patch_size (positions ! n) r)))"
proof -
  let ?st = "tile_passes img patch_size"
  have pad: "pad_to_patch img patch_size = Inr img"
    using h(1) w(1) by (simp add: pad_to_patch_def)
  have ex: "extract_patches img patch_size
              = Inr (fst ?st, snd ?st, (height img, width img, channels img))"
    by (rule extract_patches_tile_passes [OF pad ps])
  have pos: "snd ?st = List.product (py_range (height img + 1 - patch_size) patch_size)
                                    (py_range (width img + 1 - patch_size) patch_size)"
    by (simp add: tile_passes_exact [OF h(2) w(2)] positions_primary_sweep)
  have len: "length (snd ?st) = (height img div patch_size) * (width img div patch_size)"
    unfolding pos using ps h(1) w(1) by (simp add: length_py_range)
  note tiles = tile_passes_tiles [OF ps h(1) w(1)]
  have len': "length (fst ?st) = (height img div patch_size) * (width img div patch_size)"
    using len tiles(1) by simp
  have dist: "distinct (snd ?st)"
    unfolding pos by (simp add: distinct_product distinct_py_range ps)
  have disj: "\<forall>m < length (snd ?st). \<forall>n < length (snd ?st).
                m \<noteq> n \<longrightarrow> (\<forall>r. \<not> (covers patch_size (snd ?st ! m) r
                                      \<and> covers patch_size (snd ?st ! n) r))"
  proof (intro allI impI notI)
    fix m n r
    assume m: "m < length (snd ?st)" and n: "n < length (snd ?st)" and ne: "m \<noteq> n"
      and c: "covers patch_size (snd ?st ! m) r \<and> covers patch_size (snd ?st ! n) r"
    have "snd ?st ! m \<in> set (snd ?st)" "snd ?st ! n \<in> set (snd ?st)"
      using m n by simp_all
    then have "snd ?st ! m = snd ?st ! n"
      unfolding pos set_product using grid_disjoint [OF ps] c pos by metis
    then show False
      using dist m n ne by (simp add: nth_eq_iff_index_eq)
  qed
  show ?thesis using ex len len' tiles(2) dist disj by blast
qed

theorem tiler_exact_grid_witness:
  "\<exists>patches positions.
     extract_patches (\<lparr> height = 4, width = 6, channels = 3, pixel = (\<lambda>i j k. 0::nat) \<rparr>) 2
       = Inr (patches, positions, (4, 6, 3))
     \<and> length patches = 6 \<and> length positions = 6
     \<and> list_all (\<lambda>n. is_tile (\<lparr> height = 4, width = 6, channels = 3, pixel = (\<lambda>i j k. 0::nat) \<rparr>)
                        2 (patches ! n) (positions ! n)) [0, 1, 2, 3, 4, 5]
     \<and> distinct positions"
proof -
  let ?img = "\<lparr> height = 4, width = 6, channels = 3, pixel = (\<lambda>i j k. 0::nat) \<rparr>"
  have "(0::nat) < 2" "2 \<le> height ?img" "height ?img mod 2 = 0"
       "2 \<le> width ?img" "width ?img mod 2 = 0"
    by simp_all
  from tiler_exact_grid [OF this] obtain patches positions where
    e: "extract_patches ?img 2 = Inr (patches, positions, (height ?img, width ?img, channels ?img))"
    and l: "length patches = (height ?img div 2) * (width ?img div 2)"
           "length positions = (height ?img div 2) * (width ?img div 2)"
    and t: "\<forall>n < length positions. is_tile ?img 2 (patches ! n) (positions ! n)"
    and d: "distinct positions"
    by blast
  have l6: "length patches = 6" "length positions = 6" using l by simp_all
  have "list_all (\<lambda>n. is_tile ?img 2 (patches ! n) (positions ! n)) [0, 1, 2, 3, 4, 5]"
    using t l6 by simp
  moreover have "extract_patches ?img 2 = Inr (patches, positions, (4, 6, 3))"
    using e by simp
  ultimately show ?thesis using l6 d by blast
qed

text \<open>
  C2. For an image whose padded height or width is not an exact multiple of the tile
  size, the Tiler emits tiles that are slices of the padded image of the tile's size, and
  every pixel of the padded image lies in one of them: the patch of that tile holds the
  pixel at its offset from the origin.
\<close>

theorem tiler_coverage:
  assumes ps: "0 < patch_size" and h: "0 < height img" and w: "0 < width img"
    and ragged: "max (height img) patch_size mod patch_size \<noteq> 0
               \<or> max (width img) patch_size mod patch_size \<noteq> 0"
  shows "\<exists>padded patches positions.
           pad_to_patch img patch_size = Inr padded
           \<and> height padded = max (height img) patch_size
           \<and> width padded = max (width img) patch_size
           \<and> extract_patches img patch_size
               = Inr (patches, positions, (height padded, width padded, channels padded))
           \<and> length patches = length positions
           \<and> (\<forall>n < length positions. is_tile padded patch_size (patches ! n) (positions ! n))
           \<and> (\<forall>i < height padded. \<forall>j < width padded.
                 \<exists>n < length positions.
                   covers patch_size (positions ! n) (i, j)
                   \<and> (\<forall>k < channels padded.
                         pixel (patches ! n) (i - fst (positions ! n)) (j - snd (positions ! n)) k
                           = pixel padded i j k))"
proof -
  from pad_to_patch_shape [OF h w, of patch_size] obtain padded where
    pad: "pad_to_patch img patch_size = Inr padded"
    and hp: "height padded = max (height img) patch_size"
    and wp: "width padded = max (width img) patch_size"
    by blast
  let ?st = "tile_passes padded patch_size"
  have hge: "patch_size \<le> height padded" and wge: "patch_size \<le> width padded"
    using hp wp by simp_all
  have ex: "extract_patches img patch_size
              = Inr (fst ?st, snd ?st, (height padded, width padded, channels padded))"
    by (rule extract_patches_tile_passes [OF pad ps])
  note tiles = tile_passes_tiles [OF ps hge wge]
  have cov: "\<exists>n < length (snd ?st).
               covers patch_size (snd ?st ! n) (i, j)
               \<and> (\<forall>k < channels padded.
                     pixel (fst ?st ! n) (i - fst (snd ?st ! n)) (j - snd (snd ?st ! n)) k
                       = pixel padded i j k)"
    if i: "i < height padded" and j: "j < width padded" for i j
  proof -
    from tile_passes_cover [OF ps hge wge i j] obtain p where
      p: "p \<in> set (snd ?st)" "covers patch_size p (i, j)"
      by blast
    from p(1) obtain n where n: "n < length (snd ?st)" "snd ?st ! n = p"
      by (auto simp: in_set_conv_nth)
    have t: "is_tile padded patch_size (fst ?st ! n) p"
      using tiles(2) n by auto
    have off: "i - fst p < patch_size" "j - snd p < patch_size"
              "fst p + (i - fst p) = i" "snd p + (j - snd p) = j"
      using p(2) by (auto simp: covers_def)
    have "pixel (fst ?st ! n) (i - fst p) (j - snd p) k = pixel padded i j k"
      if "k < channels padded" for k
      using t off that by (simp add: is_tile_def)
    then show ?thesis using n p(2) by blast
  qed
  show ?thesis using pad hp wp ex tiles cov by blast
qed

theorem tiler_coverage_witness:
  "\<exists>padded patches positions.
     pad_to_patch (\<lparr> height = 3, width = 5, channels = 3, pixel = (\<lambda>i j k. i + j + k) \<rparr>) 2
       = Inr padded
     \<and> height padded = 3 \<and> width padded = 5
     \<and> extract_patches (\<lparr> height = 3, width = 5, channels = 3, pixel = (\<lambda>i j k. i + j + k) \<rparr>) 2
         = Inr (patches, positions, (height padded, width padded, channels padded))
     \<and> length patches = length positions
     \<and> (\<exists>n < length positions.
           covers 2 (positions ! n) (2, 4)
           \<and> pixel (patches ! n) (2 - fst (positions ! n)) (4 - snd (positions ! n)) 1
               = pixel padded 2 4 1)"
proof -
  let ?img = "\<lparr> height = 3, width = 5, channels = 3, pixel = (\<lambda>i j k. i + j + k) \<rparr>"
  have "(0::nat) < 2" "0 < height ?img" "0 < width ?img"
       "max (height ?img) 2 mod 2 \<noteq> 0 \<or> max (width ?img) 2 mod 2 \<noteq> 0"
    by simp_all
  from tiler_coverage [OF this] obtain padded patches positions where
    pad: "pad_to_patch ?img 2 = Inr padded"
    and hp: "height padded = max (height ?img) 2"
    and wp: "width padded = max (width ?img) 2"
    and ex: "extract_patches ?img 2
               = Inr (patches, positions, (height padded, width padded, channels padded))"
    and len: "length patches = length positions"
    and cov: "\<forall>i < height padded. \<forall>j < width padded.
                \<exists>n < length positions.
                  covers 2 (positions ! n) (i, j)
                  \<and> (\<forall>k < channels padded.
                        pixel (patches ! n) (i - fst (positions ! n)) (j - snd (positions ! n)) k
                          = pixel padded i j k)"
    by blast
  have s: "height padded = 3" "width padded = 5" using hp wp by simp_all
  have "padded = ?img" using pad by (simp add: pad_to_patch_def)
  then have c: "1 < channels padded" by simp
  from cov s obtain n where
    n: "n < length positions" "covers 2 (positions ! n) (2, 4)"
    and px: "\<forall>k < channels padded.
               pixel (patches ! n) (2 - fst (positions ! n)) (4 - snd (positions ! n)) k
                 = pixel padded 2 4 k"
    by (metis lessI numeral_2_eq_2 numeral_3_eq_3 less_Suc_eq eval_nat_numeral(3) Suc_numeral
          semiring_norm(5) semiring_norm(8) less_add_one)
  have "pixel (patches ! n) (2 - fst (positions ! n)) (4 - snd (positions ! n)) 1
          = pixel padded 2 4 1"
    using px c by blast
  then show ?thesis using pad s ex len n by blast
qed

text \<open>
  The scenario of the specification: a 600 by 600 image with tile size 512 gives four
  tiles, one of the primary sweep, one on the bottom edge, one on the right edge and the
  corner.
\<close>

lemma tiler_600_scenario:
  "snd (tile_passes (\<lparr> height = 600, width = 600, channels = 3, pixel = (\<lambda>i j k. 0::nat) \<rparr>) 512)
     = [(0, 0), (88, 0), (0, 88), (88, 88)]"
  by (simp add: tile_passes_def corner_def right_edge_def bottom_edge_def primary_sweep_def
        py_range_def append_tile_if_new_def append_tile_def)

text \<open>The index that the reflection reads: the mirror on the last cell and its period.\<close>

lemma reflect_index_mirror:
  assumes "d < n"
  shows "reflect_index n (n - 1 + d) = n - 1 - d"
proof (cases "n \<le> 1")
  case True
  then show ?thesis using assms by (simp add: reflect_index_def)
next
  case False
  show ?thesis
  proof (cases "d = n - 1")
    case True
    then have "n - 1 + d = 2 * (n - 1)" by simp
    then show ?thesis using False True by (simp add: reflect_index_def)
  next
    case ne: False
    then have lt: "n - 1 + d < 2 * (n - 1)" using assms by linarith
    then have m: "(n - 1 + d) mod (2 * (n - 1)) = n - 1 + d" by simp
    show ?thesis
    proof (cases "d = 0")
      case True
      then show ?thesis using False by (simp add: reflect_index_def Let_def)
    next
      case d: False
      then have "\<not> n - 1 + d < n" by linarith
      moreover have "2 * (n - 1) - (n - 1 + d) = n - 1 - d" by linarith
      ultimately show ?thesis
        using False unfolding reflect_index_def Let_def m by simp
    qed
  qed
qed

lemma reflect_index_period: "reflect_index n (k + 2 * (n - 1)) = reflect_index n k"
  by (simp add: reflect_index_def)

lemma reflect_index_single: "n = 1 \<Longrightarrow> reflect_index n k = 0"
  by (simp add: reflect_index_def)

text \<open>
  C8. For an image with a dimension below the tile size, the Tiler first pads it by
  reflection. Every deficient axis reaches the tile size and the original pixels keep
  their place. The rows after the last row mirror the rows before it, the last row
  itself not repeated, and the mirror image repeats with the period of two such runs;
  an axis of length one repeats its only cell; the same holds for the columns. So every
  pixel of the padded image is a copy of a pixel of the image and none is a fill value.
  The tiles are slices of the padded image.
\<close>

theorem tiler_pads_by_reflection:
  assumes h: "0 < height img" and w: "0 < width img"
    and ps: "0 < patch_size"
    and small: "height img < patch_size \<or> width img < patch_size"
  shows "\<exists>padded patches positions.
           pad_to_patch img patch_size = Inr padded
           \<and> height padded = max (height img) patch_size
           \<and> width padded = max (width img) patch_size
           \<and> channels padded = channels img
           \<and> (\<forall>i < height img. \<forall>j < width img. \<forall>k. pixel padded i j k = pixel img i j k)
           \<and> (\<forall>d < height img. \<forall>j k.
                 pixel padded (height img - 1 + d) j k = pixel padded (height img - 1 - d) j k)
           \<and> (\<forall>d < width img. \<forall>i k.
                 pixel padded i (width img - 1 + d) k = pixel padded i (width img - 1 - d) k)
           \<and> (\<forall>i j k. pixel padded (i + 2 * (height img - 1)) j k = pixel padded i j k)
           \<and> (\<forall>i j k. pixel padded i (j + 2 * (width img - 1)) k = pixel padded i j k)
           \<and> (height img = 1 \<longrightarrow> (\<forall>i j k. pixel padded i j k = pixel padded 0 j k))
           \<and> (width img = 1 \<longrightarrow> (\<forall>i j k. pixel padded i j k = pixel padded i 0 k))
           \<and> (\<forall>i j k. \<exists>i' < height img. \<exists>j' < width img.
                 pixel padded i j k = pixel img i' j' k)
           \<and> extract_patches img patch_size
               = Inr (patches, positions, (height padded, width padded, channels padded))
           \<and> length patches = length positions
           \<and> (\<forall>n < length positions. is_tile padded patch_size (patches ! n) (positions ! n))"
proof -
  let ?padded = "\<lparr> height = height img + (patch_size - height img),
                    width = width img + (patch_size - width img),
                    channels = channels img,
                    pixel = (\<lambda>i j k. pixel img (reflect_index (height img) i)
                                                 (reflect_index (width img) j) k) \<rparr>"
  have pad: "pad_to_patch img patch_size = Inr ?padded"
    using h w small by (simp add: pad_to_patch_def np_pad_reflect_def)
  have shape: "height ?padded = max (height img) patch_size"
              "width ?padded = max (width img) patch_size"
              "channels ?padded = channels img"
    by (simp_all add: max_def)
  have keep: "\<forall>i < height img. \<forall>j < width img. \<forall>k. pixel ?padded i j k = pixel img i j k"
    by (simp add: reflect_index_inside)
  have idx: "reflect_index n (n - 1 + d) = reflect_index n (n - 1 - d)" if "d < n" for n d
  proof -
    have "n - 1 - d < n" using that by linarith
    then show ?thesis
      using reflect_index_mirror [OF that] reflect_index_inside [of "n - 1 - d" n] by simp
  qed
  have mirror_rows: "\<forall>d < height img. \<forall>j k.
      pixel ?padded (height img - 1 + d) j k = pixel ?padded (height img - 1 - d) j k"
  proof (intro allI impI)
    fix d j k
    assume d: "d < height img"
    show "pixel ?padded (height img - 1 + d) j k = pixel ?padded (height img - 1 - d) j k"
      by (simp only: image.select_convs idx [OF d])
  qed
  have mirror_cols: "\<forall>d < width img. \<forall>i k.
      pixel ?padded i (width img - 1 + d) k = pixel ?padded i (width img - 1 - d) k"
  proof (intro allI impI)
    fix d i k
    assume d: "d < width img"
    show "pixel ?padded i (width img - 1 + d) k = pixel ?padded i (width img - 1 - d) k"
      by (simp only: image.select_convs idx [OF d])
  qed
  have period_rows: "\<forall>i j k. pixel ?padded (i + 2 * (height img - 1)) j k = pixel ?padded i j k"
    by (simp only: image.select_convs reflect_index_period) simp
  have period_cols: "\<forall>i j k. pixel ?padded i (j + 2 * (width img - 1)) k = pixel ?padded i j k"
    by (simp only: image.select_convs reflect_index_period) simp
  have single_rows: "height img = 1 \<longrightarrow> (\<forall>i j k. pixel ?padded i j k = pixel ?padded 0 j k)"
    by (simp add: reflect_index_single)
  have single_cols: "width img = 1 \<longrightarrow> (\<forall>i j k. pixel ?padded i j k = pixel ?padded i 0 k)"
    by (simp add: reflect_index_single)
  have copy: "\<forall>i j k. \<exists>i' < height img. \<exists>j' < width img.
                pixel ?padded i j k = pixel img i' j' k"
  proof (intro allI)
    fix i j k
    have "reflect_index (height img) i < height img" "reflect_index (width img) j < width img"
      using h w by (simp_all add: reflect_index_less)
    then show "\<exists>i' < height img. \<exists>j' < width img. pixel ?padded i j k = pixel img i' j' k"
      by auto
  qed
  have ex: "extract_patches img patch_size
              = Inr (fst (tile_passes ?padded patch_size), snd (tile_passes ?padded patch_size),
                     (height ?padded, width ?padded, channels ?padded))"
    by (rule extract_patches_tile_passes [OF pad ps])
  have ge: "patch_size \<le> height ?padded" "patch_size \<le> width ?padded"
    by simp_all
  note tiles = tile_passes_tiles [OF ps ge]
  show ?thesis
    apply (rule exI [of _ ?padded])
    apply (rule exI [of _ "fst (tile_passes ?padded patch_size)"])
    apply (rule exI [of _ "snd (tile_passes ?padded patch_size)"])
    apply (intro conjI)
    apply (rule pad shape keep mirror_rows mirror_cols period_rows period_cols
                single_rows single_cols copy ex tiles)+
    done
qed

theorem tiler_pads_by_reflection_witness:
  "\<exists>padded patches positions.
     pad_to_patch (\<lparr> height = 3, width = 5, channels = 1, pixel = (\<lambda>i j k. 10 * i + j + 1) \<rparr>) 4
       = Inr padded
     \<and> height padded = 4 \<and> width padded = 5 \<and> channels padded = 1
     \<and> pixel padded 2 2 0 = 23
     \<and> pixel padded 3 2 0 = 13
     \<and> extract_patches
          (\<lparr> height = 3, width = 5, channels = 1, pixel = (\<lambda>i j k. 10 * i + j + 1) \<rparr>) 4
         = Inr (patches, positions, (4, 5, 1))
     \<and> length patches = length positions"
proof -
  let ?img = "\<lparr> height = 3, width = 5, channels = 1, pixel = (\<lambda>i j k. 10 * i + j + 1) \<rparr>"
  have "0 < height ?img" "0 < width ?img" "(0::nat) < 4" "height ?img < 4 \<or> width ?img < 4"
    by simp_all
  from tiler_pads_by_reflection [OF this] obtain padded patches positions where
    pad: "pad_to_patch ?img 4 = Inr padded"
    and shape: "height padded = max (height ?img) 4" "width padded = max (width ?img) 4"
               "channels padded = channels ?img"
    and keep: "\<forall>i < height ?img. \<forall>j < width ?img. \<forall>k. pixel padded i j k = pixel ?img i j k"
    and mirror: "\<forall>d < height ?img. \<forall>j k.
                   pixel padded (height ?img - 1 + d) j k = pixel padded (height ?img - 1 - d) j k"
    and ex: "extract_patches ?img 4
               = Inr (patches, positions, (height padded, width padded, channels padded))"
    and len: "length patches = length positions"
    by (elim exE conjE) (rule that, assumption+)
  have s: "height padded = 4" "width padded = 5" "channels padded = 1"
    using shape by simp_all
  have k2: "pixel padded 2 2 0 = pixel ?img 2 2 0" and k1: "pixel padded 1 2 0 = pixel ?img 1 2 0"
    using keep by simp_all
  have "pixel padded 3 2 0 = pixel padded 1 2 0"
    using mirror [rule_format, of 1 2 0] by simp
  then have m: "pixel padded 3 2 0 = 13" using k1 by simp
  have e: "pixel padded 2 2 0 = 23" using k2 by simp
  have "extract_patches ?img 4 = Inr (patches, positions, (4, 5, 1))"
    using ex s by simp
  then show ?thesis using pad s e m len by blast
qed

subsection \<open>The Reconstructor\<close>

text \<open>Below \<open>2^24\<close> the rounding to \<^verbatim>\<open>float32\<close> changes nothing; at \<open>2^24\<close> a count stops growing.\<close>

lemma f32_exact: "n < 2 ^ 24 \<Longrightarrow> f32 n = n"
  by (simp add: f32_def)

lemma f32_count_stops: "f32 (16777216 + 1) = 16777216"
proof -
  have "floorlog 2 (16777217::nat) \<le> 25" by (rule floorlog_leI) simp_all
  moreover have "Suc 24 \<le> floorlog 2 (16777217::nat)" by (rule floorlog_ge_SucI) simp_all
  ultimately have "floorlog 2 (16777217::nat) = 25" by simp
  then show ?thesis by (simp add: f32_def)
qed

text \<open>For a tile that fits, the slice is the tile's region and nothing is broadcast.\<close>

lemma in_slice_covers:
  assumes "y + ps \<le> nrows a" "x + ps \<le> ncols a"
  shows "in_slice a y x ps i j = covers ps (y, x) (i, j)"
  using assms by (auto simp: in_slice_def covers_def)

lemma add_patch_fits:
  assumes "tile_fits ps (nrows a) (ncols a) (pred, (y, x))"
    and small: "\<forall>i j. covers ps (y, x) (i, j) \<longrightarrow> cell a i j + cell pred (i - y) (j - x) < 2 ^ 24"
  shows "add_patch a y x ps pred =
           Inr (a\<lparr> cell := (\<lambda>i j. cell a i j +
                   (if covers ps (y, x) (i, j) then cell pred (i - y) (j - x) else 0)) \<rparr>)"
proof -
  have fit: "nrows pred = ps" "ncols pred = ps" "y + ps \<le> nrows a" "x + ps \<le> ncols a"
    using assms(1) by (simp_all add: tile_fits_def)
  have sh: "min (nrows a) (y + ps) - min (nrows a) y = ps"
    and sw: "min (ncols a) (x + ps) - min (ncols a) x = ps"
    using fit by simp_all
  have "(\<lambda>i j. if in_slice a y x ps i j
               then f32 (cell a i j + cell pred (if nrows pred = 1 then 0 else i - y)
                                                (if ncols pred = 1 then 0 else j - x))
               else cell a i j)
        = (\<lambda>i j. cell a i j + (if covers ps (y, x) (i, j) then cell pred (i - y) (j - x) else 0))"
  proof (intro ext)
    fix i j
    show "(if in_slice a y x ps i j
           then f32 (cell a i j + cell pred (if nrows pred = 1 then 0 else i - y)
                                            (if ncols pred = 1 then 0 else j - x))
           else cell a i j)
          = cell a i j + (if covers ps (y, x) (i, j) then cell pred (i - y) (j - x) else 0)"
    proof (cases "covers ps (y, x) (i, j)")
      case True
      then have "ps = 1 \<Longrightarrow> i - y = 0" "ps = 1 \<Longrightarrow> j - x = 0"
        by (auto simp: covers_def)
      then have idx: "(if nrows pred = 1 then 0 else i - y) = i - y"
                     "(if ncols pred = 1 then 0 else j - x) = j - x"
        using fit by simp_all
      have "f32 (cell a i j + cell pred (i - y) (j - x)) = cell a i j + cell pred (i - y) (j - x)"
        using small True by (intro f32_exact) blast
      then show ?thesis
        unfolding idx using True fit by (simp add: in_slice_covers)
    next
      case False
      then show ?thesis using fit by (simp add: in_slice_covers)
    qed
  qed
  then show ?thesis
    using fit sh sw by (simp add: add_patch_def)
qed

lemma add_one_fits:
  assumes "y + ps \<le> nrows a" "x + ps \<le> ncols a"
    and small: "\<forall>i j. covers ps (y, x) (i, j) \<longrightarrow> cell a i j + 1 < 2 ^ 24"
  shows "add_one a y x ps =
           a\<lparr> cell := (\<lambda>i j. cell a i j + (if covers ps (y, x) (i, j) then 1 else 0)) \<rparr>"
proof -
  have "(\<lambda>i j. if in_slice a y x ps i j then f32 (cell a i j + 1) else cell a i j)
        = (\<lambda>i j. cell a i j + (if covers ps (y, x) (i, j) then 1 else 0))"
  proof (intro ext)
    fix i j
    show "(if in_slice a y x ps i j then f32 (cell a i j + 1) else cell a i j)
          = cell a i j + (if covers ps (y, x) (i, j) then 1 else 0)"
    proof (cases "covers ps (y, x) (i, j)")
      case True
      then have "f32 (cell a i j + 1) = cell a i j + 1"
        using small by (intro f32_exact) blast
      then show ?thesis using True by (simp add: in_slice_covers [OF assms(1,2)])
    next
      case False
      then show ?thesis by (simp add: in_slice_covers [OF assms(1,2)])
    qed
  qed
  then show ?thesis by (simp add: add_one_def)
qed

lemma sum_at_Cons:
  "sum_at ps ((pred, (y, x)) # tiles) i j
     = (if covers ps (y, x) (i, j) then cell pred (i - y) (j - x) else 0) + sum_at ps tiles i j"
  by (simp add: sum_at_def)

lemma count_at_Cons:
  "count_at ps ((pred, (y, x)) # tiles) i j
     = (if covers ps (y, x) (i, j) then 1 else 0) + count_at ps tiles i j"
  by (simp add: count_at_def)

text \<open>
  While every sum and every count stays below \<open>2^24\<close>, the loop adds, at every cell, the
  sum and the count of the tiles over it.
\<close>

lemma accumulate_fits:
  assumes "\<forall>t \<in> set tiles. tile_fits ps (nrows out) (ncols out) t"
    and "nrows cnt = nrows out" "ncols cnt = ncols out"
    and "\<forall>i j. cell out i j + sum_at ps tiles i j < 2 ^ 24"
    and "\<forall>i j. cell cnt i j + count_at ps tiles i j < 2 ^ 24"
  shows "\<exists>out' cnt'. accumulate ps tiles (out, cnt) = Inr (out', cnt')
           \<and> (\<forall>i j. cell out' i j = cell out i j + sum_at ps tiles i j)
           \<and> (\<forall>i j. cell cnt' i j = cell cnt i j + count_at ps tiles i j)"
  using assms
proof (induction tiles arbitrary: out cnt)
  case Nil
  then show ?case by (simp add: sum_at_def count_at_def)
next
  case (Cons t tiles)
  obtain pred y x where t: "t = (pred, (y, x))" by (metis surj_pair)
  have fit: "tile_fits ps (nrows out) (ncols out) (pred, (y, x))"
    using Cons.prems(1) t by simp
  have bs: "\<forall>i j. cell out i j
              + (if covers ps (y, x) (i, j) then cell pred (i - y) (j - x) else 0)
              + sum_at ps tiles i j < 2 ^ 24"
    using Cons.prems(4) unfolding t sum_at_Cons by (simp add: add.assoc)
  have bc: "\<forall>i j. cell cnt i j + (if covers ps (y, x) (i, j) then 1 else 0)
              + count_at ps tiles i j < 2 ^ 24"
    using Cons.prems(5) unfolding t count_at_Cons by (simp add: add.assoc)
  let ?out = "out\<lparr> cell := (\<lambda>i j. cell out i j +
                   (if covers ps (y, x) (i, j) then cell pred (i - y) (j - x) else 0)) \<rparr>"
  let ?cnt = "cnt\<lparr> cell := (\<lambda>i j. cell cnt i j + (if covers ps (y, x) (i, j) then 1 else 0)) \<rparr>"
  have "\<forall>i j. covers ps (y, x) (i, j) \<longrightarrow> cell out i j + cell pred (i - y) (j - x) < 2 ^ 24"
  proof (intro allI impI)
    fix i j
    assume "covers ps (y, x) (i, j)"
    then have "cell out i j + cell pred (i - y) (j - x)
                 \<le> cell out i j
                    + (if covers ps (y, x) (i, j) then cell pred (i - y) (j - x) else 0)
                    + sum_at ps tiles i j"
      by simp
    then show "cell out i j + cell pred (i - y) (j - x) < 2 ^ 24"
      using bs by (meson le_less_trans)
  qed
  then have a: "add_patch out y x ps pred = Inr ?out" by (rule add_patch_fits [OF fit])
  have "\<forall>i j. covers ps (y, x) (i, j) \<longrightarrow> cell cnt i j + 1 < 2 ^ 24"
  proof (intro allI impI)
    fix i j
    assume "covers ps (y, x) (i, j)"
    then have "cell cnt i j + 1
                 \<le> cell cnt i j + (if covers ps (y, x) (i, j) then 1 else 0)
                    + count_at ps tiles i j"
      by simp
    then show "cell cnt i j + 1 < 2 ^ 24"
      using bc by (meson le_less_trans)
  qed
  then have b: "add_one cnt y x ps = ?cnt"
    using fit Cons.prems(2,3) by (intro add_one_fits) (simp_all add: tile_fits_def)
  have "\<forall>t \<in> set tiles. tile_fits ps (nrows ?out) (ncols ?out) t"
    using Cons.prems(1) by simp
  moreover have "nrows ?cnt = nrows ?out" "ncols ?cnt = ncols ?out"
    using Cons.prems(2,3) by simp_all
  moreover have "\<forall>i j. cell ?out i j + sum_at ps tiles i j < 2 ^ 24"
    using bs by simp
  moreover have "\<forall>i j. cell ?cnt i j + count_at ps tiles i j < 2 ^ 24"
    using bc by simp
  ultimately obtain out' cnt' where
    r: "accumulate ps tiles (?out, ?cnt) = Inr (out', cnt')"
    and s: "\<forall>i j. cell out' i j = cell ?out i j + sum_at ps tiles i j"
    and c: "\<forall>i j. cell cnt' i j = cell ?cnt i j + count_at ps tiles i j"
    using Cons.IH [of ?out ?cnt] by blast
  have "accumulate ps (t # tiles) (out, cnt) = Inr (out', cnt')"
    using a b r t by simp
  moreover have "\<forall>i j. cell out' i j = cell out i j + sum_at ps (t # tiles) i j"
    using s unfolding t sum_at_Cons by simp
  moreover have "\<forall>i j. cell cnt' i j = cell cnt i j + count_at ps (t # tiles) i j"
    using c unfolding t count_at_Cons by simp
  ultimately show ?case by blast
qed

lemma reconstruct_fits:
  assumes "\<forall>t \<in> set (zip predictions positions). tile_fits ps h w t"
    and "\<forall>i j. sum_at ps (zip predictions positions) i j < 2 ^ 24"
    and "\<forall>i j. count_at ps (zip predictions positions) i j < 2 ^ 24"
  shows "\<exists>mask. reconstruct_from_patches predictions positions (h, w, c) ps = Inr mask
           \<and> nrows mask = h \<and> ncols mask = w
           \<and> (\<forall>i j. cell mask i j =
                 average_uint8 (sum_at ps (zip predictions positions) i j)
                               (count_at ps (zip predictions positions) i j))"
proof -
  have "\<forall>t \<in> set (zip predictions positions).
          tile_fits ps (nrows (np_zeros h w)) (ncols (np_zeros h w)) t"
    using assms(1) by (simp add: np_zeros_def)
  moreover have "nrows (np_zeros h w) = nrows (np_zeros h w)"
    "ncols (np_zeros h w) = ncols (np_zeros h w)"
    by simp_all
  moreover have "\<forall>i j. cell (np_zeros h w) i j + sum_at ps (zip predictions positions) i j < 2 ^ 24"
    using assms(2) by (simp add: np_zeros_def)
  moreover have "\<forall>i j. cell (np_zeros h w) i j + count_at ps (zip predictions positions) i j < 2 ^ 24"
    using assms(3) by (simp add: np_zeros_def)
  ultimately obtain out' cnt' where
    r: "accumulate ps (zip predictions positions) (np_zeros h w, np_zeros h w) = Inr (out', cnt')"
    and s: "\<forall>i j. cell out' i j
              = cell (np_zeros h w) i j + sum_at ps (zip predictions positions) i j"
    and n: "\<forall>i j. cell cnt' i j
              = cell (np_zeros h w) i j + count_at ps (zip predictions positions) i j"
    using accumulate_fits [of "zip predictions positions" ps "np_zeros h w" "np_zeros h w"]
    by blast
  show ?thesis
    using r s n by (simp add: reconstruct_from_patches_def np_zeros_def)
qed

text \<open>With values below 256 the average is below 256 and the cast does not wrap.\<close>

lemma sum_at_bound:
  assumes "\<forall>t \<in> set tiles. nrows (fst t) = ps \<and> ncols (fst t) = ps \<and> values_below (Suc k) (fst t)"
  shows "sum_at ps tiles i j \<le> k * count_at ps tiles i j"
  using assms
proof (induction tiles)
  case Nil
  then show ?case by (simp add: sum_at_def count_at_def)
next
  case (Cons t tiles)
  have ih: "sum_at ps tiles i j \<le> k * count_at ps tiles i j"
    using Cons by simp
  show ?case
  proof (cases "covers ps (snd t) (i, j)")
    case True
    then have "i - fst (snd t) < ps" "j - snd (snd t) < ps"
      by (auto simp: covers_def)
    then have "cell (fst t) (i - fst (snd t)) (j - snd (snd t)) \<le> k"
      using Cons.prems by (simp add: values_below_def less_Suc_eq_le)
    then show ?thesis
      using ih True by (simp add: sum_at_def count_at_def)
  next
    case False
    then show ?thesis using ih by (simp add: sum_at_def count_at_def)
  qed
qed

lemma average_uint8_exact:
  assumes "s \<le> 255 * c"
  shows "average_uint8 s c = s div max c 1"
proof -
  have "s div max c 1 \<le> 255"
  proof (cases "c = 0")
    case True
    then show ?thesis using assms by simp
  next
    case False
    then have "max c 1 = c" by simp
    moreover have "s div c \<le> (255 * c) div c" using assms by (rule div_le_mono)
    ultimately show ?thesis using False by simp
  qed
  then show ?thesis by (simp add: average_uint8_def)
qed

text \<open>No tile that fits lies over a cell outside the accumulators.\<close>

lemma count_at_outside:
  assumes "\<forall>t \<in> set tiles. tile_fits ps h w t" and "\<not> (i < h \<and> j < w)"
  shows "count_at ps tiles i j = 0"
proof -
  have "\<not> covers ps (snd t) (i, j)" if "t \<in> set tiles" for t
    using assms that by (auto simp: tile_fits_def covers_def)
  then have "filter (\<lambda>t. covers ps (snd t) (i, j)) tiles = []"
    by (simp add: filter_empty_conv)
  then show ?thesis by (simp add: count_at_def)
qed

text \<open>
  With values below 256 and at most 65793 tiles over a pixel, every sum is at most
  \<open>255 * 65793 = 2^24 - 1\<close>.
\<close>

lemma overlap_bound:
  assumes fit: "\<forall>t \<in> set tiles. tile_fits ps h w t \<and> values_below 256 (fst t)"
    and few: "\<forall>i < h. \<forall>j < w. count_at ps tiles i j \<le> 65793"
  shows "sum_at ps tiles i j \<le> 255 * count_at ps tiles i j"
    and "sum_at ps tiles i j < 2 ^ 24"
    and "count_at ps tiles i j < 2 ^ 24"
proof -
  have "\<forall>t \<in> set tiles. nrows (fst t) = ps \<and> ncols (fst t) = ps \<and> values_below (Suc 255) (fst t)"
    using fit by (simp add: tile_fits_def)
  then show s: "sum_at ps tiles i j \<le> 255 * count_at ps tiles i j"
    by (rule sum_at_bound)
  have c: "count_at ps tiles i j \<le> 65793"
  proof (cases "i < h \<and> j < w")
    case True
    then show ?thesis using few by simp
  next
    case False
    then have "count_at ps tiles i j = 0"
      using fit by (intro count_at_outside [of tiles ps h w]) simp_all
    then show ?thesis by simp
  qed
  then show "count_at ps tiles i j < 2 ^ 24" by simp
  have "255 * count_at ps tiles i j \<le> 255 * 65793" using c by simp
  then show "sum_at ps tiles i j < 2 ^ 24" using s by simp
qed

lemma reconstruct_cells:
  assumes fit: "\<forall>t \<in> set (zip predictions positions).
                  tile_fits ps h w t \<and> values_below 256 (fst t)"
    and few: "\<forall>i < h. \<forall>j < w. count_at ps (zip predictions positions) i j \<le> 65793"
  shows "\<exists>mask. reconstruct_from_patches predictions positions (h, w, c) ps = Inr mask
           \<and> nrows mask = h \<and> ncols mask = w
           \<and> (\<forall>i j. cell mask i j =
                 sum_at ps (zip predictions positions) i j
                   div max (count_at ps (zip predictions positions) i j) 1)"
proof -
  let ?tiles = "zip predictions positions"
  note b = overlap_bound [OF fit few]
  have "\<forall>t \<in> set ?tiles. tile_fits ps h w t" using fit by simp
  moreover have "\<forall>i j. sum_at ps ?tiles i j < 2 ^ 24" using b(2) by simp
  moreover have "\<forall>i j. count_at ps ?tiles i j < 2 ^ 24" using b(3) by simp
  ultimately obtain mask where
    r: "reconstruct_from_patches predictions positions (h, w, c) ps = Inr mask"
    and shape: "nrows mask = h" "ncols mask = w"
    and cells: "\<forall>i j. cell mask i j =
                  average_uint8 (sum_at ps ?tiles i j) (count_at ps ?tiles i j)"
    using reconstruct_fits [of predictions positions ps h w c] by blast
  have "cell mask i j = sum_at ps ?tiles i j div max (count_at ps ?tiles i j) 1" for i j
    using cells b(1) [of i j] by (simp add: average_uint8_exact)
  then show ?thesis using r shape by blast
qed

lemma sum_at_const:
  assumes "\<forall>t \<in> set tiles. \<forall>a < ps. \<forall>b < ps. cell (fst t) a b = c"
  shows "sum_at ps tiles i j = c * count_at ps tiles i j"
  using assms
proof (induction tiles)
  case Nil
  then show ?case by (simp add: sum_at_def count_at_def)
next
  case (Cons t tiles)
  have ih: "sum_at ps tiles i j = c * count_at ps tiles i j"
    using Cons by simp
  show ?case
  proof (cases "covers ps (snd t) (i, j)")
    case True
    then have "i - fst (snd t) < ps" "j - snd (snd t) < ps"
      by (auto simp: covers_def)
    then have "cell (fst t) (i - fst (snd t)) (j - snd (snd t)) = c"
      using Cons.prems by simp
    then show ?thesis
      using ih True by (simp add: sum_at_def count_at_def)
  next
    case False
    then show ?thesis using ih by (simp add: sum_at_def count_at_def)
  qed
qed

lemma count_at_pos:
  assumes "t \<in> set tiles" "covers ps (snd t) (i, j)"
  shows "0 < count_at ps tiles i j"
proof -
  have "t \<in> set (filter (\<lambda>t. covers ps (snd t) (i, j)) tiles)"
    using assms by simp
  then have "filter (\<lambda>t. covers ps (snd t) (i, j)) tiles \<noteq> []"
    by (metis empty_iff empty_set)
  then show ?thesis by (simp add: count_at_def)
qed

lemma count_at_le_length: "count_at ps tiles i j \<le> length tiles"
  by (simp add: count_at_def)

text \<open>
  The four tiles of a 3 by 3 image with tile size 2, as the Tiler emits them, each with
  one class predicted everywhere.
\<close>

lemma four_tiles_fit:
  assumes "a < 256" "b < 256" "c < 256" "d < 256"
  shows "\<forall>t \<in> set (zip [np_full 2 2 a, np_full 2 2 b, np_full 2 2 c, np_full 2 2 d]
                         [(0, 0), (1, 0), (0, 1), (1, 1)]).
           tile_fits 2 3 3 t \<and> values_below 256 (fst t)"
  using assms by (simp add: tile_fits_def values_below_def np_full_def)

lemma four_tiles_few:
  "\<forall>i < 3. \<forall>j < 3.
     count_at 2 (zip [np_full 2 2 a, np_full 2 2 b, np_full 2 2 c, np_full 2 2 d]
                     [(0, 0), (1, 0), (0, 1), (1, 1)]) i j \<le> 65793"
proof (intro allI impI)
  fix i j :: nat
  have "count_at 2 (zip [np_full 2 2 a, np_full 2 2 b, np_full 2 2 c, np_full 2 2 d]
                        [(0, 0), (1, 0), (0, 1), (1, 1)]) i j
          \<le> length (zip [np_full 2 2 a, np_full 2 2 b, np_full 2 2 c, np_full 2 2 d]
                         [(0::nat, 0::nat), (1, 0), (0, 1), (1, 1)])"
    by (rule count_at_le_length)
  then show "count_at 2 (zip [np_full 2 2 a, np_full 2 2 b, np_full 2 2 c, np_full 2 2 d]
                             [(0, 0), (1, 0), (0, 1), (1, 1)]) i j \<le> 65793"
    by simp
qed

lemma four_tiles_centre:
  "sum_at 2 (zip [np_full 2 2 a, np_full 2 2 b, np_full 2 2 c, np_full 2 2 d]
                 [(0, 0), (1, 0), (0, 1), (1, 1)]) 1 1 = a + b + c + d"
  "count_at 2 (zip [np_full 2 2 a, np_full 2 2 b, np_full 2 2 c, np_full 2 2 d]
                   [(0, 0), (1, 0), (0, 1), (1, 1)]) 1 1 = 4"
  by (simp_all add: sum_at_def count_at_def covers_def np_full_def)

text \<open>
  C1 as stated fails. Where the four tiles meet, the sum is 7 and the count is 4: the
  quotient 1.75 rounds to 2, and the Reconstructor stores 1.
\<close>

theorem reconstruct_rounds_counterexample:
  "\<not> isl (reconstruct_from_patches
             [np_full 2 2 1, np_full 2 2 2, np_full 2 2 2, np_full 2 2 2]
             [(0, 0), (1, 0), (0, 1), (1, 1)] (3, 3, 1) 2)
   \<and> cell (projr (reconstruct_from_patches
                    [np_full 2 2 1, np_full 2 2 2, np_full 2 2 2, np_full 2 2 2]
                    [(0, 0), (1, 0), (0, 1), (1, 1)] (3, 3, 1) 2)) 1 1
       \<noteq> round_nearest
            (sum_at 2 (zip [np_full 2 2 1, np_full 2 2 2, np_full 2 2 2, np_full 2 2 2]
                           [(0, 0), (1, 0), (0, 1), (1, 1)]) 1 1)
            (max (count_at 2 (zip [np_full 2 2 1, np_full 2 2 2, np_full 2 2 2, np_full 2 2 2]
                                  [(0, 0), (1, 0), (0, 1), (1, 1)]) 1 1) 1)"
proof -
  let ?P = "[np_full 2 2 (1::nat), np_full 2 2 2, np_full 2 2 2, np_full 2 2 2]"
  let ?Q = "[(0::nat, 0::nat), (1, 0), (0, 1), (1, 1)]"
  have fit: "\<forall>t \<in> set (zip ?P ?Q). tile_fits 2 3 3 t \<and> values_below 256 (fst t)"
    by (rule four_tiles_fit) simp_all
  from reconstruct_cells [OF fit four_tiles_few, of 1] obtain mask where
    r: "reconstruct_from_patches ?P ?Q (3, 3, 1) 2 = Inr mask"
    and c: "\<forall>i j. cell mask i j
              = sum_at 2 (zip ?P ?Q) i j div max (count_at 2 (zip ?P ?Q) i j) 1"
    by blast
  have "cell mask 1 1 = 1"
    using c four_tiles_centre [of 1 2 2 2] by simp
  moreover have "round_nearest (sum_at 2 (zip ?P ?Q) 1 1) (max (count_at 2 (zip ?P ?Q) 1 1) 1) = 2"
    using four_tiles_centre [of 1 2 2 2] by (simp add: round_nearest_def)
  ultimately show ?thesis using r by simp
qed

text \<open>
  C1, amended. For predictions with matching origins and values below 256, with at most
  65793 tiles over any pixel (so that every \<^verbatim>\<open>float32\<close> sum stays below \<open>2^24\<close> and is
  exact), the output at each pixel is the sum of the predicted values there divided by
  \<open>max(count, 1)\<close> with the fraction dropped: the quotient is truncated, not rounded.
\<close>

theorem reconstruct_truncated_average:
  assumes "\<forall>t \<in> set (zip predictions positions).
             tile_fits patch_size h w t \<and> values_below 256 (fst t)"
    and "\<forall>i < h. \<forall>j < w. count_at patch_size (zip predictions positions) i j \<le> 65793"
  shows "\<exists>mask. reconstruct_from_patches predictions positions (h, w, c) patch_size = Inr mask
           \<and> nrows mask = h \<and> ncols mask = w
           \<and> (\<forall>i < h. \<forall>j < w. cell mask i j =
                 sum_at patch_size (zip predictions positions) i j
                   div max (count_at patch_size (zip predictions positions) i j) 1)"
  using reconstruct_cells [OF assms, of c] by blast

theorem reconstruct_truncated_average_witness:
  "(list_all (\<lambda>t. tile_fits 2 3 3 t \<and> values_below 256 (fst t))
      (zip [np_full 2 2 1, np_full 2 2 2, np_full 2 2 2, np_full 2 2 2]
           [(0, 0), (1, 0), (0, 1), (1, 1)])
    \<and> list_all (\<lambda>i. list_all (\<lambda>j.
          count_at 2 (zip [np_full 2 2 1, np_full 2 2 2, np_full 2 2 2, np_full 2 2 2]
                          [(0, 0), (1, 0), (0, 1), (1, 1)]) i j \<le> 65793) [0, 1, 2]) [0, 1, 2])
   \<and> (\<exists>mask. reconstruct_from_patches
                [np_full 2 2 1, np_full 2 2 2, np_full 2 2 2, np_full 2 2 2]
                [(0, 0), (1, 0), (0, 1), (1, 1)] (3, 3, 1) 2 = Inr mask
          \<and> nrows mask = 3 \<and> ncols mask = 3 \<and> cell mask 1 1 = 7 div 4)"
proof -
  let ?P = "[np_full 2 2 (1::nat), np_full 2 2 2, np_full 2 2 2, np_full 2 2 2]"
  let ?Q = "[(0::nat, 0::nat), (1, 0), (0, 1), (1, 1)]"
  have h: "\<forall>t \<in> set (zip ?P ?Q). tile_fits 2 3 3 t \<and> values_below 256 (fst t)"
    by (rule four_tiles_fit) simp_all
  then have h': "list_all (\<lambda>t. tile_fits 2 3 3 t \<and> values_below 256 (fst t)) (zip ?P ?Q)"
    unfolding list_all_iff .
  have few: "\<forall>i < 3. \<forall>j < 3. count_at 2 (zip ?P ?Q) i j \<le> 65793"
    by (rule four_tiles_few)
  then have few': "list_all (\<lambda>i. list_all (\<lambda>j. count_at 2 (zip ?P ?Q) i j \<le> 65793) [0, 1, 2])
                     [0, 1, 2]"
    by simp
  from reconstruct_truncated_average [OF h few, of 1] obtain mask where
    r: "reconstruct_from_patches ?P ?Q (3, 3, 1) 2 = Inr mask"
    and s: "nrows mask = 3" "ncols mask = 3"
    and c: "\<forall>i < 3. \<forall>j < 3. cell mask i j =
              sum_at 2 (zip ?P ?Q) i j div max (count_at 2 (zip ?P ?Q) i j) 1"
    by blast
  have "cell mask 1 1 = 7 div 4"
    using c four_tiles_centre [of 1 2 2 2] by simp
  then show ?thesis using h' few' r s by blast
qed

text \<open>
  C7. For a tiling that covers every pixel, with one prediction for each tile, every
  prediction equal to the class \<open>k\<close> everywhere and at most 65793 tiles over any pixel
  (so that every \<^verbatim>\<open>float32\<close> sum stays below \<open>2^24\<close> and is exact), the reconstructed mask
  is \<open>k\<close> at every pixel.
\<close>

theorem reconstruct_constant:
  assumes fits: "\<forall>t \<in> set (zip predictions positions). tile_fits patch_size h w t"
    and len: "length predictions = length positions"
    and const: "\<forall>pred \<in> set predictions. \<forall>a < patch_size. \<forall>b < patch_size. cell pred a b = k"
    and cover: "\<forall>i < h. \<forall>j < w. \<exists>p \<in> set positions. covers patch_size p (i, j)"
    and k: "k < 256"
    and few: "\<forall>i < h. \<forall>j < w. count_at patch_size (zip predictions positions) i j \<le> 65793"
  shows "\<exists>mask. reconstruct_from_patches predictions positions (h, w, c) patch_size = Inr mask
           \<and> nrows mask = h \<and> ncols mask = w
           \<and> (\<forall>i < h. \<forall>j < w. cell mask i j = k)"
proof -
  let ?tiles = "zip predictions positions"
  have ck: "\<forall>t \<in> set ?tiles. \<forall>a < patch_size. \<forall>b < patch_size. cell (fst t) a b = k"
    using const by (auto dest: set_zip_leftD)
  have "\<forall>t \<in> set ?tiles. tile_fits patch_size h w t \<and> values_below 256 (fst t)"
  proof
    fix t
    assume t: "t \<in> set ?tiles"
    then have f: "tile_fits patch_size h w t" using fits by simp
    then have "nrows (fst t) = patch_size" "ncols (fst t) = patch_size"
      by (simp_all add: tile_fits_def)
    then have "values_below 256 (fst t)"
      using ck t k by (simp add: values_below_def)
    then show "tile_fits patch_size h w t \<and> values_below 256 (fst t)" using f by simp
  qed
  from reconstruct_cells [OF this few, of c] obtain mask where
    r: "reconstruct_from_patches predictions positions (h, w, c) patch_size = Inr mask"
    and shape: "nrows mask = h" "ncols mask = w"
    and cells: "\<forall>i j. cell mask i j =
                  sum_at patch_size ?tiles i j div max (count_at patch_size ?tiles i j) 1"
    by blast
  have s: "sum_at patch_size ?tiles i j = k * count_at patch_size ?tiles i j" for i j
    using ck by (rule sum_at_const)
  have "cell mask i j = k" if "i < h" "j < w" for i j
  proof -
    from cover that obtain p where p: "p \<in> set positions" "covers patch_size p (i, j)"
      by blast
    from p(1) len obtain pred where "(pred, p) \<in> set ?tiles"
      by (metis in_set_impl_in_set_zip2)
    then have n: "0 < count_at patch_size ?tiles i j"
      using p(2) by (intro count_at_pos [of "(pred, p)"]) simp_all
    then have "max (count_at patch_size ?tiles i j) 1 = count_at patch_size ?tiles i j"
      by simp
    then show ?thesis using cells s n by simp
  qed
  then show ?thesis using r shape by blast
qed

theorem reconstruct_constant_witness:
  "(list_all (tile_fits 2 3 3)
      (zip [np_full 2 2 5, np_full 2 2 5, np_full 2 2 5, np_full 2 2 5]
           [(0, 0), (1, 0), (0, 1), (1, 1)])
    \<and> list_all (\<lambda>i. list_all (\<lambda>j. list_ex (\<lambda>p. covers 2 p (i, j))
                                           [(0, 0), (1, 0), (0, 1), (1, 1)]) [0, 1, 2]) [0, 1, 2]
    \<and> (5::nat) < 256
    \<and> list_all (\<lambda>i. list_all (\<lambda>j.
          count_at 2 (zip [np_full 2 2 5, np_full 2 2 5, np_full 2 2 5, np_full 2 2 5]
                          [(0, 0), (1, 0), (0, 1), (1, 1)]) i j \<le> 65793) [0, 1, 2]) [0, 1, 2])
   \<and> (\<exists>mask. reconstruct_from_patches
                [np_full 2 2 5, np_full 2 2 5, np_full 2 2 5, np_full 2 2 5]
                [(0, 0), (1, 0), (0, 1), (1, 1)] (3, 3, 1) 2 = Inr mask
          \<and> nrows mask = 3 \<and> ncols mask = 3
          \<and> list_all (\<lambda>i. list_all (\<lambda>j. cell mask i j = 5) [0, 1, 2]) [0, 1, 2])"
proof -
  let ?P = "[np_full 2 2 (5::nat), np_full 2 2 5, np_full 2 2 5, np_full 2 2 5]"
  let ?Q = "[(0::nat, 0::nat), (1, 0), (0, 1), (1, 1)]"
  have "\<forall>t \<in> set (zip ?P ?Q). tile_fits 2 3 3 t \<and> values_below 256 (fst t)"
    by (rule four_tiles_fit) simp_all
  then have fits: "\<forall>t \<in> set (zip ?P ?Q). tile_fits 2 3 3 t" by simp
  then have fits': "list_all (tile_fits 2 3 3) (zip ?P ?Q)"
    unfolding list_all_iff .
  have len: "length ?P = length ?Q" by simp
  have const: "\<forall>pred \<in> set ?P. \<forall>a < 2. \<forall>b < 2. cell pred a b = 5"
    by (simp add: np_full_def)
  have cover': "list_all (\<lambda>i. list_all (\<lambda>j. list_ex (\<lambda>p. covers 2 p (i, j)) ?Q) [0, 1, 2])
                  [0, 1, 2]"
    by (simp add: covers_def)
  have cover: "\<forall>i < 3. \<forall>j < 3. \<exists>p \<in> set ?Q. covers 2 p (i, j)"
    by (auto simp: covers_def)
  have k: "(5::nat) < 256" by simp
  have few: "\<forall>i < 3. \<forall>j < 3. count_at 2 (zip ?P ?Q) i j \<le> 65793"
    by (rule four_tiles_few)
  then have few': "list_all (\<lambda>i. list_all (\<lambda>j. count_at 2 (zip ?P ?Q) i j \<le> 65793) [0, 1, 2])
                     [0, 1, 2]"
    by simp
  from reconstruct_constant [OF fits len const cover k few, of 1] obtain mask where
    r: "reconstruct_from_patches ?P ?Q (3, 3, 1) 2 = Inr mask"
    and s: "nrows mask = 3" "ncols mask = 3"
    and c: "\<forall>i < 3. \<forall>j < 3. cell mask i j = 5"
    by blast
  have "list_all (\<lambda>i. list_all (\<lambda>j. cell mask i j = 5) [0, 1, 2]) [0, 1, 2]"
    using c by simp
  then show ?thesis using fits' cover' k few' r s by blast
qed

subsection \<open>Vegetation mask and coverage\<close>


















text \<open>
  C9. The vegetation classes are exactly the classes 1 to 6, so on a mask with class
  values in 0..6 a pixel is marked as vegetation if and only if its class is not zero.
\<close>

theorem vegetation_iff_nonzero:
  "set VEGETATION_CLASSES = {c. c \<noteq> 0 \<and> c < N_CLASSES}
   \<and> (\<forall>i j. cell m i j \<le> 6 \<longrightarrow>
         (cell (np_isin m VEGETATION_CLASSES) i j \<longleftrightarrow> cell m i j \<noteq> 0)
         \<and> cell (binary_vegetation_mask m) i j = (if cell m i j \<noteq> 0 then 1 else 0))"
proof -
  have s: "set VEGETATION_CLASSES = {c. c \<noteq> 0 \<and> c < N_CLASSES}"
    by (auto simp: VEGETATION_CLASSES_def N_CLASSES_def)
  have "c \<in> set VEGETATION_CLASSES \<longleftrightarrow> c \<noteq> 0" if "c \<le> 6" for c
    using that unfolding s by (simp add: N_CLASSES_def)
  then show ?thesis
    using s by (simp add: np_isin_def binary_vegetation_mask_def astype_float_def)
qed

theorem vegetation_iff_nonzero_witness:
  "(cell (np_full 2 2 (4::nat)) 0 1 \<le> 6 \<and> cell (np_full 2 2 (0::nat)) 0 1 \<le> 6)
   \<and> cell (np_isin (np_full 2 2 4) VEGETATION_CLASSES) 0 1
   \<and> \<not> cell (np_isin (np_full 2 2 0) VEGETATION_CLASSES) 0 1
   \<and> cell (binary_vegetation_mask (np_full 2 2 4)) 0 1 = 1
   \<and> cell (binary_vegetation_mask (np_full 2 2 0)) 0 1 = 0"
  using vegetation_iff_nonzero [of "np_full 2 2 4"] vegetation_iff_nonzero [of "np_full 2 2 0"]
  by (simp add: np_full_def)

subsection \<open>Loading the image of a URL task\<close>

lemma endswith_last:
  assumes "endswith s suffix" "suffix \<noteq> []"
  shows "s \<noteq> [] \<and> last s = last suffix"
proof -
  have d: "drop (length s - length suffix) s = suffix" and l: "length suffix \<le> length s"
    using assms(1) by (simp_all add: endswith_def)
  have "s \<noteq> []" using l assms(2) by auto
  moreover have "last s = last (drop (length s - length suffix) s)"
    using d assms(2) by (metis drop_eq_Nil last_drop not_le)
  ultimately show ?thesis using d by simp
qed

lemma str_lower_url_input_path:
  "str_lower (url_input_path tid) = str_lower (''uploads/'' @ tid) @ ''_input''"
  by (simp add: url_input_path_def str_lower_def lower_char_def)

lemma url_input_path_not_geotiff: "\<not> is_geotiff (url_input_path tid)"
proof
  assume "is_geotiff (url_input_path tid)"
  then have "endswith (str_lower (url_input_path tid)) ''.tif''
           \<or> endswith (str_lower (url_input_path tid)) ''.tiff''"
    by (simp add: is_geotiff_def)
  then have "last (str_lower (url_input_path tid)) = CHR ''f''"
    using endswith_last [of "str_lower (url_input_path tid)" "''.tif''"]
          endswith_last [of "str_lower (url_input_path tid)" "''.tiff''"]
    by auto
  moreover have "last (str_lower (url_input_path tid)) = CHR ''t''"
    by (simp add: str_lower_url_input_path)
  ultimately show False by simp
qed

lemma load_image_url_input_path:
  "load_image e (url_input_path tid) = pil_open_rgb e (url_input_path tid)"
  by (simp add: load_image_def loader_of_def url_input_path_not_geotiff)



subsection \<open>The task lifecycle\<close>

text \<open>The five shapes of the trace of \<^verbatim>\<open>process_image_file\<close>.\<close>

lemma process_image_file_trace_props:
  assumes "progress t0 \<le> 30" "\<not> terminal t0"
  shows "progress_monotone (t0 # process_image_file_trace e file_path tid t0)
         \<and> only_last_terminal (t0 # process_image_file_trace e file_path tid t0)
         \<and> error_keeps_progress (t0 # process_image_file_trace e file_path tid t0)"
  using assms
  by (auto simp: process_image_file_trace_def process_image_file_body_def handled_def
        on_exception_def terminal_def Let_def split: option.splits sum.splits)

lemma process_image_from_url_trace_props:
  assumes "progress t0 \<le> 10" "\<not> terminal t0"
  shows "progress_monotone (t0 # process_image_from_url_trace e url tid t0)
         \<and> only_last_terminal (t0 # process_image_from_url_trace e url tid t0)
         \<and> error_keeps_progress (t0 # process_image_from_url_trace e url tid t0)"
proof -
  let ?t1 = "t0\<lparr> status := ''downloading'', progress := 10, message := ''Downloading image...'' \<rparr>"
  have inner: "progress_monotone (?t1 # process_image_file_trace e (url_input_path tid) tid ?t1)
         \<and> only_last_terminal (?t1 # process_image_file_trace e (url_input_path tid) tid ?t1)
         \<and> error_keeps_progress (?t1 # process_image_file_trace e (url_input_path tid) tid ?t1)"
    by (rule process_image_file_trace_props) (simp_all add: terminal_def)
  show ?thesis
    using assms inner
    by (auto simp: process_image_from_url_trace_def process_image_from_url_body_def handled_def
          on_exception_def terminal_def Let_def split: option.splits sum.splits)
qed

text \<open>
  C4. Over the records a task goes through while its background job runs, starting from
  the record the endpoint created: the progress never decreases, no record before the
  last has the status \<^verbatim>\<open>error\<close> or \<^verbatim>\<open>completed\<close> (so nothing changes a terminal record),
  and a transition to \<^verbatim>\<open>error\<close> leaves the progress as it was.
\<close>

theorem job_lifecycle:
  "progress_monotone
     (new_upload_task tid now # process_image_file_trace e file_path tid (new_upload_task tid now))
   \<and> only_last_terminal
     (new_upload_task tid now # process_image_file_trace e file_path tid (new_upload_task tid now))
   \<and> error_keeps_progress
     (new_upload_task tid now # process_image_file_trace e file_path tid (new_upload_task tid now))
   \<and> progress_monotone
     (new_url_task tid now # process_image_from_url_trace e url tid (new_url_task tid now))
   \<and> only_last_terminal
     (new_url_task tid now # process_image_from_url_trace e url tid (new_url_task tid now))
   \<and> error_keeps_progress
     (new_url_task tid now # process_image_from_url_trace e url tid (new_url_task tid now))"
proof -
  have "progress (new_upload_task tid now) \<le> 30" "\<not> terminal (new_upload_task tid now)"
    by (simp_all add: new_upload_task_def terminal_def)
  moreover have "progress (new_url_task tid now) \<le> 10" "\<not> terminal (new_url_task tid now)"
    by (simp_all add: new_url_task_def terminal_def)
  ultimately show ?thesis
    using process_image_file_trace_props process_image_from_url_trace_props by blast
qed

lemma unreadable_url_trace:
  "process_image_from_url_trace env_unreadable url tid (new_url_task tid now)
     = [\<lparr> task_id = tid, status = ''downloading'', progress = 10,
          message = ''Downloading image...'', created_at = now, result = None \<rparr>,
        \<lparr> task_id = tid, status = ''processing'', progress = 30,
          message = ''Loading image...'', created_at = now, result = None \<rparr>,
        \<lparr> task_id = tid, status = ''error'', progress = 30,
          message = ''Processing error: cannot identify image file'',
          created_at = now, result = None \<rparr>]"
proof -
  have "load_image env_unreadable (url_input_path tid)
          = Inl (OtherError ''cannot identify image file'')"
    by (simp add: load_image_url_input_path) (simp add: env_unreadable_def)
  moreover have "model env_unreadable = Some (\<lambda>patches. Inl (OtherError ''no prediction''))"
    "requests_get env_unreadable url = Inr ''bytes''"
    "write_file env_unreadable (url_input_path tid) ''bytes'' = None"
    by (simp_all add: env_unreadable_def)
  ultimately show ?thesis
    by (simp add: process_image_from_url_trace_def process_image_from_url_body_def
          process_image_file_trace_def process_image_file_body_def handled_def
          on_exception_def new_url_task_def Let_def)
qed

theorem job_lifecycle_witness:
  "map progress (new_url_task ''7f3a'' 0
                 # process_image_from_url_trace env_unreadable ''http://host/a.png'' ''7f3a''
                     (new_url_task ''7f3a'' 0)) = [0, 10, 30, 30]
   \<and> map status (new_url_task ''7f3a'' 0
                 # process_image_from_url_trace env_unreadable ''http://host/a.png'' ''7f3a''
                     (new_url_task ''7f3a'' 0))
       = [''queued'', ''downloading'', ''processing'', ''error'']
   \<and> progress_monotone
        (new_url_task ''7f3a'' 0
         # process_image_from_url_trace env_unreadable ''http://host/a.png'' ''7f3a''
             (new_url_task ''7f3a'' 0))
   \<and> only_last_terminal
        (new_url_task ''7f3a'' 0
         # process_image_from_url_trace env_unreadable ''http://host/a.png'' ''7f3a''
             (new_url_task ''7f3a'' 0))
   \<and> error_keeps_progress
        (new_url_task ''7f3a'' 0
         # process_image_from_url_trace env_unreadable ''http://host/a.png'' ''7f3a''
             (new_url_task ''7f3a'' 0))"
proof -
  have "map progress (new_url_task ''7f3a'' 0
                 # process_image_from_url_trace env_unreadable ''http://host/a.png'' ''7f3a''
                     (new_url_task ''7f3a'' 0)) = [0, 10, 30, 30]"
    by (simp add: unreadable_url_trace) (simp add: new_url_task_def)
  moreover have "map status (new_url_task ''7f3a'' 0
                 # process_image_from_url_trace env_unreadable ''http://host/a.png'' ''7f3a''
                     (new_url_task ''7f3a'' 0))
       = [''queued'', ''downloading'', ''processing'', ''error'']"
    by (simp add: unreadable_url_trace) (simp add: new_url_task_def)
  ultimately show ?thesis
    using job_lifecycle [of "''7f3a''" 0 env_unreadable _ "''http://host/a.png''"]
    by blast
qed

text \<open>What a job leaves in the store when its task has a record.\<close>

lemma handled_last_error:
  assumes "fst r = Some x"
  shows "last (t0 # handled prefix t0 r) = on_exception prefix x (last (t0 # snd r))"
  using assms by (simp add: handled_def)

lemma file_body_keeps_result:
  assumes "fst (process_image_file_body e file_path tid t0) = Some x"
  shows "result (last (t0 # snd (process_image_file_body e file_path tid t0))) = result t0"
  using assms
  by (auto simp: process_image_file_body_def Let_def split: option.splits sum.splits)

lemma file_trace_error:
  assumes "fst (process_image_file_body e file_path tid t0) = Some x"
  shows "status (last (t0 # process_image_file_trace e file_path tid t0)) = ''error''
         \<and> message (last (t0 # process_image_file_trace e file_path tid t0))
             = ''Processing error: '' @ str_of x
         \<and> result (last (t0 # process_image_file_trace e file_path tid t0)) = result t0"
  unfolding process_image_file_trace_def handled_last_error [OF assms]
  using file_body_keeps_result [OF assms] by (simp add: on_exception_def)

lemma url_body_keeps_result:
  assumes "fst (process_image_from_url_body e url tid t0) = Some x"
  shows "result (last (t0 # snd (process_image_from_url_body e url tid t0))) = result t0"
  using assms
  by (auto simp: process_image_from_url_body_def Let_def split: option.splits sum.splits)

lemma url_trace_error:
  assumes "fst (process_image_from_url_body e url tid t0) = Some x"
  shows "status (last (t0 # process_image_from_url_trace e url tid t0)) = ''error''
         \<and> message (last (t0 # process_image_from_url_trace e url tid t0))
             = ''Error processing URL: '' @ str_of x
         \<and> result (last (t0 # process_image_from_url_trace e url tid t0)) = result t0"
  unfolding process_image_from_url_trace_def handled_last_error [OF assms]
  using url_body_keeps_result [OF assms] by (simp add: on_exception_def)

lemma url_trace_inner:
  assumes "fst (process_image_from_url_body e url tid t0) = None"
  shows "last (t0 # process_image_from_url_trace e url tid t0)
           = last (t0\<lparr> status := ''downloading'', progress := 10,
                        message := ''Downloading image...'' \<rparr>
                   # process_image_file_trace e (url_input_path tid) tid
                       (t0\<lparr> status := ''downloading'', progress := 10,
                            message := ''Downloading image...'' \<rparr>))"
  using assms
  by (auto simp: process_image_from_url_trace_def process_image_from_url_body_def handled_def
        Let_def split: option.splits sum.splits)

text \<open>
  C5. A job contains its exceptions only while the task has a record; without one the
  exception leaves the job. A record can be deleted before the job starts: the upload endpoint awaits
  the file system after it has stored the record, the task list shows the identifier, and
  \<^verbatim>\<open>delete_task\<close> removes any record. The status and deletion endpoints test
  \<^verbatim>\<open>task_id not in tasks\<close>; the jobs do not. The first assignment of the job then raises
  \<^verbatim>\<open>KeyError\<close>, the \<^verbatim>\<open>except\<close> clause catches it, its own first assignment raises
  \<^verbatim>\<open>KeyError\<close> again, and that exception leaves the job: no status is set.
\<close>

theorem job_missing_record_escapes:
  "fst (process_image_file env_unreadable ''uploads/7f3a_a.png'' ''7f3a''
          [''other'' \<mapsto> new_upload_task ''other'' 1]) = Raised (KeyError ''7f3a'')
   \<and> snd (process_image_file env_unreadable ''uploads/7f3a_a.png'' ''7f3a''
            [''other'' \<mapsto> new_upload_task ''other'' 1]) ''7f3a'' = None
   \<and> fst (process_image_from_url env_unreadable ''http://host/a.png'' ''7f3a''
            [''other'' \<mapsto> new_upload_task ''other'' 1]) = Raised (KeyError ''7f3a'')
   \<and> snd (process_image_from_url env_unreadable ''http://host/a.png'' ''7f3a''
            [''other'' \<mapsto> new_upload_task ''other'' 1]) ''7f3a'' = None"
  by (simp add: process_image_file_def process_image_from_url_def)

text \<open>
  With the record in the store the handlers do what they are written for: the job
  returns, the other records are untouched, and an exception raised in either body ends in
  the status \<^verbatim>\<open>error\<close> with the message of the clause that caught it. The clause does not
  touch the result, so the task has none if it had none.
\<close>

lemma present_record_contains_exceptions:
  assumes rec: "tasks tid = Some t0" and fresh: "result t0 = None"
  shows "fst (process_image_file e file_path tid tasks) = Returned
         \<and> (\<forall>other. other \<noteq> tid \<longrightarrow>
               snd (process_image_file e file_path tid tasks) other = tasks other)
         \<and> (\<forall>x. fst (process_image_file_body e file_path tid t0) = Some x \<longrightarrow>
               (\<exists>t. snd (process_image_file e file_path tid tasks) tid = Some t
                    \<and> status t = ''error''
                    \<and> message t = ''Processing error: '' @ str_of x
                    \<and> result t = None))
         \<and> fst (process_image_from_url e url tid tasks) = Returned
         \<and> (\<forall>other. other \<noteq> tid \<longrightarrow>
               snd (process_image_from_url e url tid tasks) other = tasks other)
         \<and> (\<forall>x. fst (process_image_from_url_body e url tid t0) = Some x \<longrightarrow>
               (\<exists>t. snd (process_image_from_url e url tid tasks) tid = Some t
                    \<and> status t = ''error''
                    \<and> message t = ''Error processing URL: '' @ str_of x
                    \<and> result t = None))
         \<and> (\<forall>x. fst (process_image_from_url_body e url tid t0) = None
                \<and> fst (process_image_file_body e (url_input_path tid) tid
                          (t0\<lparr> status := ''downloading'', progress := 10,
                               message := ''Downloading image...'' \<rparr>)) = Some x \<longrightarrow>
               (\<exists>t. snd (process_image_from_url e url tid tasks) tid = Some t
                    \<and> status t = ''error''
                    \<and> message t = ''Processing error: '' @ str_of x
                    \<and> result t = None))"
proof -
  let ?t1 = "t0\<lparr> status := ''downloading'', progress := 10, message := ''Downloading image...'' \<rparr>"
  have f: "process_image_file e file_path tid tasks
             = (Returned, tasks(tid \<mapsto> last (t0 # process_image_file_trace e file_path tid t0)))"
    using rec by (simp add: process_image_file_def)
  have u: "process_image_from_url e url tid tasks
             = (Returned, tasks(tid \<mapsto> last (t0 # process_image_from_url_trace e url tid t0)))"
    using rec by (simp add: process_image_from_url_def)
  have a: "\<exists>t. snd (process_image_file e file_path tid tasks) tid = Some t
             \<and> status t = ''error'' \<and> message t = ''Processing error: '' @ str_of x
             \<and> result t = None"
    if "fst (process_image_file_body e file_path tid t0) = Some x" for x
    using file_trace_error [OF that] fresh by (simp add: f)
  have b: "\<exists>t. snd (process_image_from_url e url tid tasks) tid = Some t
             \<and> status t = ''error'' \<and> message t = ''Error processing URL: '' @ str_of x
             \<and> result t = None"
    if "fst (process_image_from_url_body e url tid t0) = Some x" for x
    using url_trace_error [OF that] fresh by (simp add: u)
  have c: "\<exists>t. snd (process_image_from_url e url tid tasks) tid = Some t
             \<and> status t = ''error'' \<and> message t = ''Processing error: '' @ str_of x
             \<and> result t = None"
    if "fst (process_image_from_url_body e url tid t0) = None"
       "fst (process_image_file_body e (url_input_path tid) tid ?t1) = Some x" for x
  proof -
    have "result ?t1 = None" using fresh by simp
    then show ?thesis
      using file_trace_error [OF that(2)] url_trace_inner [OF that(1)] by (simp add: u)
  qed
  show ?thesis
    using a b c by (simp add: f u)
qed

lemma present_record_contains_exceptions_example:
  "([''7f3a'' \<mapsto> new_url_task ''7f3a'' 0, ''other'' \<mapsto> new_upload_task ''other'' 1] ''7f3a''
      = Some (new_url_task ''7f3a'' 0)
    \<and> result (new_url_task ''7f3a'' 0) = None
    \<and> fst (process_image_from_url_body env_not_found ''http://host/gone.png'' ''7f3a''
              (new_url_task ''7f3a'' 0)) = Some (OtherError ''404 Client Error''))
   \<and> fst (process_image_from_url env_not_found ''http://host/gone.png'' ''7f3a''
            [''7f3a'' \<mapsto> new_url_task ''7f3a'' 0, ''other'' \<mapsto> new_upload_task ''other'' 1])
       = Returned
   \<and> snd (process_image_from_url env_not_found ''http://host/gone.png'' ''7f3a''
            [''7f3a'' \<mapsto> new_url_task ''7f3a'' 0, ''other'' \<mapsto> new_upload_task ''other'' 1])
         ''other'' = Some (new_upload_task ''other'' 1)
   \<and> (\<exists>t. snd (process_image_from_url env_not_found ''http://host/gone.png'' ''7f3a''
                 [''7f3a'' \<mapsto> new_url_task ''7f3a'' 0,
                  ''other'' \<mapsto> new_upload_task ''other'' 1]) ''7f3a'' = Some t
          \<and> status t = ''error''
          \<and> message t = ''Error processing URL: 404 Client Error''
          \<and> result t = None)"
proof -
  let ?tasks = "[''7f3a'' \<mapsto> new_url_task ''7f3a'' 0, ''other'' \<mapsto> new_upload_task ''other'' 1]"
  have rec: "?tasks ''7f3a'' = Some (new_url_task ''7f3a'' 0)" by simp
  have fresh: "result (new_url_task ''7f3a'' 0) = None" by (simp add: new_url_task_def)
  have raised: "fst (process_image_from_url_body env_not_found ''http://host/gone.png'' ''7f3a''
                       (new_url_task ''7f3a'' 0)) = Some (OtherError ''404 Client Error'')"
    by (simp add: process_image_from_url_body_def env_not_found_def env_unreadable_def)
  note inst = present_record_contains_exceptions
                [of ?tasks "''7f3a''" "new_url_task ''7f3a'' 0" env_not_found _
                    "''http://host/gone.png''", OF rec fresh]
  note url_part = inst [THEN conjunct2, THEN conjunct2, THEN conjunct2]
  have r: "fst (process_image_from_url env_not_found ''http://host/gone.png'' ''7f3a'' ?tasks)
             = Returned"
    by (rule url_part [THEN conjunct1])
  have ne: "''other'' \<noteq> ''7f3a''" by simp
  have "snd (process_image_from_url env_not_found ''http://host/gone.png'' ''7f3a'' ?tasks)
               ''other'' = ?tasks ''other''"
    by (rule url_part [THEN conjunct2, THEN conjunct1, THEN spec, THEN mp, OF ne])
  then have o: "snd (process_image_from_url env_not_found ''http://host/gone.png'' ''7f3a'' ?tasks)
               ''other'' = Some (new_upload_task ''other'' 1)"
    by simp
  have "\<exists>t. snd (process_image_from_url env_not_found ''http://host/gone.png'' ''7f3a'' ?tasks)
               ''7f3a'' = Some t
          \<and> status t = ''error''
          \<and> message t = ''Error processing URL: '' @ str_of (OtherError ''404 Client Error'')
          \<and> result t = None"
    by (rule url_part [THEN conjunct2, THEN conjunct2, THEN conjunct1, THEN spec, THEN mp,
                       OF raised])
  then have e: "\<exists>t. snd (process_image_from_url env_not_found ''http://host/gone.png'' ''7f3a''
                            ?tasks) ''7f3a'' = Some t
          \<and> status t = ''error''
          \<and> message t = ''Error processing URL: 404 Client Error''
          \<and> result t = None"
    by simp
  show ?thesis
    by (intro conjI rec fresh raised r o e)
qed

end
